theory Spec2Isabelle
  imports Complex_Main "HOL-Library.AList"
begin

section \<open>Python floats and numpy element-wise arithmetic\<close>

text \<open>
  The sample arrays of a well are numpy \<^verbatim>\<open>float64\<close> arrays and the calibration
  constants are Python floats, which are \<^verbatim>\<open>float64\<close> as well. A float is modelled
  as a finite value, an infinity or NaN. The special values follow IEEE 754, as numpy
  does: numpy warns on a division by zero, an overflow or an invalid operation and
  returns an infinity or NaN, it does not raise.

  A finite value is a real number. Overflow is modelled: under round-to-nearest a
  result whose magnitude reaches \<open>2^1024 - 2^970\<close>, half a unit in the last place
  above the largest finite \<^verbatim>\<open>float64\<close>, is an infinity. Rounding within the finite
  range, underflow and the sign of zero are not modelled: a finite result is the
  exact real, and a zero divisor counts as \<^verbatim>\<open>+0.0\<close>, which is what \<^verbatim>\<open>x - x\<close> gives.
\<close>

datatype fl = Fin real | PInf | NInf | NaN

fun fl_neg :: "fl \<Rightarrow> fl" where
  "fl_neg (Fin a) = Fin (- a)"
| "fl_neg PInf = NInf"
| "fl_neg NInf = PInf"
| "fl_neg NaN = NaN"

definition overflow_threshold :: real where
  "overflow_threshold = 2 ^ 1024 - 2 ^ 970"

definition fl_round :: "real \<Rightarrow> fl" where
  "fl_round x =
     (if overflow_threshold \<le> x then PInf
      else if x \<le> - overflow_threshold then NInf
      else Fin x)"

fun fl_add :: "fl \<Rightarrow> fl \<Rightarrow> fl" where
  "fl_add (Fin a) (Fin b) = fl_round (a + b)"
| "fl_add (Fin a) PInf = PInf"
| "fl_add (Fin a) NInf = NInf"
| "fl_add PInf (Fin b) = PInf"
| "fl_add PInf PInf = PInf"
| "fl_add PInf NInf = NaN"
| "fl_add NInf (Fin b) = NInf"
| "fl_add NInf NInf = NInf"
| "fl_add NInf PInf = NaN"
| "fl_add NaN y = NaN"
| "fl_add x NaN = NaN"

definition fl_sub :: "fl \<Rightarrow> fl \<Rightarrow> fl" where
  "fl_sub x y = fl_add x (fl_neg y)"

fun fl_mul :: "fl \<Rightarrow> fl \<Rightarrow> fl" where
  "fl_mul (Fin a) (Fin b) = fl_round (a * b)"
| "fl_mul (Fin a) PInf = (if a = 0 then NaN else if 0 < a then PInf else NInf)"
| "fl_mul (Fin a) NInf = (if a = 0 then NaN else if 0 < a then NInf else PInf)"
| "fl_mul PInf (Fin b) = (if b = 0 then NaN else if 0 < b then PInf else NInf)"
| "fl_mul NInf (Fin b) = (if b = 0 then NaN else if 0 < b then NInf else PInf)"
| "fl_mul PInf PInf = PInf"
| "fl_mul PInf NInf = NInf"
| "fl_mul NInf PInf = NInf"
| "fl_mul NInf NInf = PInf"
| "fl_mul NaN y = NaN"
| "fl_mul x NaN = NaN"

fun fl_div :: "fl \<Rightarrow> fl \<Rightarrow> fl" where
  "fl_div (Fin a) (Fin b) =
     (if b = 0 then (if a = 0 then NaN else if 0 < a then PInf else NInf)
      else fl_round (a / b))"
| "fl_div (Fin a) PInf = Fin 0"
| "fl_div (Fin a) NInf = Fin 0"
| "fl_div PInf (Fin b) = (if b < 0 then NInf else PInf)"
| "fl_div NInf (Fin b) = (if b < 0 then PInf else NInf)"
| "fl_div PInf PInf = NaN"
| "fl_div PInf NInf = NaN"
| "fl_div NInf PInf = NaN"
| "fl_div NInf NInf = NaN"
| "fl_div NaN y = NaN"
| "fl_div x NaN = NaN"

text \<open>Comparisons: every comparison with NaN is false.\<close>

fun fl_lt :: "fl \<Rightarrow> fl \<Rightarrow> bool" where
  "fl_lt (Fin a) (Fin b) = (a < b)"
| "fl_lt (Fin a) PInf = True"
| "fl_lt NInf (Fin b) = True"
| "fl_lt NInf PInf = True"
| "fl_lt x y = False"

fun fl_le :: "fl \<Rightarrow> fl \<Rightarrow> bool" where
  "fl_le (Fin a) (Fin b) = (a \<le> b)"
| "fl_le (Fin a) PInf = True"
| "fl_le NInf (Fin b) = True"
| "fl_le NInf PInf = True"
| "fl_le PInf PInf = True"
| "fl_le NInf NInf = True"
| "fl_le x y = False"

fun is_finite :: "fl \<Rightarrow> bool" where
  "is_finite (Fin a) = True"
| "is_finite x = False"

text \<open>
  \<^verbatim>\<open>np.maximum\<close> and \<^verbatim>\<open>np.minimum\<close> propagate NaN; \<^verbatim>\<open>np.clip(a, lo, hi)\<close> is
  \<^verbatim>\<open>np.minimum(np.maximum(a, lo), hi)\<close>.
\<close>

definition np_maximum :: "fl \<Rightarrow> fl \<Rightarrow> fl" where
  "np_maximum x y = (if x = NaN \<or> y = NaN then NaN else if fl_lt x y then y else x)"

definition np_minimum :: "fl \<Rightarrow> fl \<Rightarrow> fl" where
  "np_minimum x y = (if x = NaN \<or> y = NaN then NaN else if fl_lt y x then y else x)"

definition clip1 :: "fl \<Rightarrow> fl \<Rightarrow> fl \<Rightarrow> fl" where
  "clip1 x lo hi = np_minimum (np_maximum x lo) hi"

text \<open>Array against scalar, element by element (numpy broadcasting).\<close>

definition arr_sub_scalar :: "fl list \<Rightarrow> fl \<Rightarrow> fl list" where
  "arr_sub_scalar xs c = map (\<lambda>x. fl_sub x c) xs"

definition scalar_sub_arr :: "fl \<Rightarrow> fl list \<Rightarrow> fl list" where
  "scalar_sub_arr c xs = map (\<lambda>x. fl_sub c x) xs"

definition arr_div_scalar :: "fl list \<Rightarrow> fl \<Rightarrow> fl list" where
  "arr_div_scalar xs d = map (\<lambda>x. fl_div x d) xs"

definition np_clip :: "fl list \<Rightarrow> fl \<Rightarrow> fl \<Rightarrow> fl list" where
  "np_clip xs lo hi = map (\<lambda>x. clip1 x lo hi) xs"

text \<open>Membership in the closed unit interval; NaN is not a member.\<close>

definition in_unit :: "fl \<Rightarrow> bool" where
  "in_unit x = (fl_le (Fin 0) x \<and> fl_le x (Fin 1))"

section \<open>WellLogData\<close>

text \<open>
  A Python \<^verbatim>\<open>dict\<close> keeps insertion order, so the three dictionaries of a well are
  association lists: \<^const>\<open>map_of\<close> looks a key up and \<^const>\<open>AList.update\<close> assigns
  (in place when the key exists, at the end otherwise). The \<^verbatim>\<open>data\<close> frame is the
  column dictionary it was built from.
\<close>

record well =
  name :: string
  data :: "(string \<times> fl list) list option"
  curves :: "(string \<times> fl list) list"
  units :: "(string \<times> string) list"
  descriptions :: "(string \<times> string) list"

definition WellLogData_init :: "string \<Rightarrow> well" where
  "WellLogData_init n =
     \<lparr>name = n, data = None, curves = [], units = [], descriptions = []\<rparr>"

definition has_key :: "('k \<times> 'v) list \<Rightarrow> 'k \<Rightarrow> bool" where
  "has_key d k = (map_of d k \<noteq> None)"

definition get_curve_names :: "well \<Rightarrow> string list" where
  "get_curve_names w = map fst (curves w)"

definition get_curve_data :: "well \<Rightarrow> string \<Rightarrow> fl list option" where
  "get_curve_data w curve_name = map_of (curves w) curve_name"

text \<open>
  The two derivations take \<^verbatim>\<open>self\<close> and return the result together with \<^verbatim>\<open>self\<close>
  as the call leaves it. Neither body assigns to a field, and both numpy
  expressions build new arrays, so the well comes back as it went in.
\<close>

definition calculate_shale_volume ::
  "well \<Rightarrow> string \<Rightarrow> fl \<Rightarrow> fl \<Rightarrow> fl list option \<times> well" where
  "calculate_shale_volume self gr_curve gr_clean gr_shale =
     (case map_of (curves self) gr_curve of
        None \<Rightarrow> (None, self)
      | Some gr \<Rightarrow>
          (let vsh = arr_div_scalar (arr_sub_scalar gr gr_clean) (fl_sub gr_shale gr_clean);
               vsh = np_clip vsh (Fin 0) (Fin 1)
           in (Some vsh, self)))"

definition calculate_porosity ::
  "well \<Rightarrow> string \<Rightarrow> fl \<Rightarrow> fl \<Rightarrow> fl list option \<times> well" where
  "calculate_porosity self density_curve fluid_density matrix_density =
     (case map_of (curves self) density_curve of
        None \<Rightarrow> (None, self)
      | Some rhob \<Rightarrow>
          (let phi = arr_div_scalar (scalar_sub_arr matrix_density rhob)
                       (fl_sub matrix_density fluid_density);
               phi = np_clip phi (Fin 0) (Fin 1)
           in (Some phi, self)))"

text \<open>The calls with every argument left at its default.\<close>

definition calculate_shale_volume_default :: "well \<Rightarrow> fl list option \<times> well" where
  "calculate_shale_volume_default self =
     calculate_shale_volume self ''GR'' (Fin 30.0) (Fin 150.0)"

definition calculate_porosity_default :: "well \<Rightarrow> fl list option \<times> well" where
  "calculate_porosity_default self =
     calculate_porosity self ''RHOB'' (Fin 1.0) (Fin 2.65)"

text \<open>The loop of \<^verbatim>\<open>_find_depth_curve\<close>: the first candidate that is a key.\<close>

fun first_candidate :: "(string \<times> fl list) list \<Rightarrow> string list \<Rightarrow> string option" where
  "first_candidate d [] = None"
| "first_candidate d (candidate # rest) =
     (if has_key d candidate then Some candidate else first_candidate d rest)"

definition depth_candidates :: "string list" where
  "depth_candidates = [''DEPT'', ''DEPTH'', ''MD'', ''TVD'']"

definition find_depth_curve :: "well \<Rightarrow> string option" where
  "find_depth_curve self = first_candidate (curves self) depth_candidates"


text \<open>
  The formulas of the two derivations for one sample, written from their description:
  \<^verbatim>\<open>Vsh = clip((GR - gr_clean) / (gr_shale - gr_clean), 0, 1)\<close> and
  \<^verbatim>\<open>Phi = clip((matrix_density - RHOB) / (matrix_density - fluid_density), 0, 1)\<close>.
\<close>

definition spec_shale_volume :: "fl \<Rightarrow> fl \<Rightarrow> fl \<Rightarrow> fl" where
  "spec_shale_volume gr_clean gr_shale g =
     clip1 (fl_div (fl_sub g gr_clean) (fl_sub gr_shale gr_clean)) (Fin 0) (Fin 1)"

definition spec_porosity :: "fl \<Rightarrow> fl \<Rightarrow> fl \<Rightarrow> fl" where
  "spec_porosity fluid_density matrix_density r =
     clip1 (fl_div (fl_sub matrix_density r) (fl_sub matrix_density fluid_density))
       (Fin 0) (Fin 1)"

section \<open>Loading a well\<close>

datatype py_error = IndexError | KeyError | ValueError | TypeError | ReadError

text \<open>
  What \<^verbatim>\<open>lasio.read\<close> hands back, as far as \<^verbatim>\<open>load_from_las\<close> reads it: the
  \<^verbatim>\<open>WELL\<close> header item when the header has one, and the curves in file order.
  The reader itself and \<^verbatim>\<open>Path(file_path).stem\<close> belong to libraries, so
  \<^verbatim>\<open>load_from_las\<close> takes both as parameters; a reader that raises returns \<^const>\<open>Inl\<close>.
\<close>

record las_curve =
  mnemonic :: string
  unit :: string
  descr :: string
  curve_data :: "fl list"

record las_file =
  well_WELL :: "string option"
  las_curves :: "las_curve list"

type_synonym curve_dicts =
  "(string \<times> fl list) list \<times> (string \<times> string) list \<times> (string \<times> string) list"

fun extract_curves :: "las_curve list \<Rightarrow> curve_dicts \<Rightarrow> curve_dicts" where
  "extract_curves [] acc = acc"
| "extract_curves (curve # rest) (data_dict, us, ds) =
     extract_curves rest
       (AList.update (mnemonic curve) (curve_data curve) data_dict,
        AList.update (mnemonic curve) (if unit curve \<noteq> [] then unit curve else []) us,
        AList.update (mnemonic curve) (if descr curve \<noteq> [] then descr curve else []) ds)"

text \<open>\<^verbatim>\<open>pd.DataFrame\<close> of a dictionary of arrays raises when their lengths differ.\<close>

definition pd_DataFrame ::
  "(string \<times> fl list) list \<Rightarrow> py_error + (string \<times> fl list) list" where
  "pd_DataFrame data_dict =
     (if list_all (\<lambda>c. length (snd c) = length (snd (hd data_dict))) data_dict
      then Inr data_dict else Inl ValueError)"

text \<open>
  \<^verbatim>\<open>load_from_las\<close> returns its flag and \<^verbatim>\<open>self\<close> as the call leaves it: when the
  frame cannot be built the name, units and descriptions are already assigned.
  The arrays of a curve item are never \<^verbatim>\<open>None\<close>, so the comprehension that
  filters \<^verbatim>\<open>data_dict\<close> keeps every entry.
\<close>

definition load_from_las ::
  "(string \<Rightarrow> py_error + las_file) \<Rightarrow> (string \<Rightarrow> string) \<Rightarrow> well \<Rightarrow> string \<Rightarrow> bool \<times> well" where
  "load_from_las lasio_read path_stem self file_path =
     (case lasio_read file_path of
        Inl e \<Rightarrow> (False, self)
      | Inr las \<Rightarrow>
          (let self = self\<lparr>name := (case well_WELL las of
                                      Some v \<Rightarrow> v | None \<Rightarrow> path_stem file_path)\<rparr>;
               (data_dict, us, ds) =
                 extract_curves (las_curves las) ([], units self, descriptions self);
               self = self\<lparr>units := us, descriptions := ds\<rparr>
           in case pd_DataFrame data_dict of
                Inl e \<Rightarrow> (False, self)
              | Inr df \<Rightarrow> (True, self\<lparr>data := Some df, curves := data_dict\<rparr>)))"

record manager =
  wells :: "(string \<times> well) list"

definition WellDataManager_init :: manager where
  "WellDataManager_init = \<lparr>wells = []\<rparr>"

definition load_well ::
  "(string \<Rightarrow> py_error + las_file) \<Rightarrow> (string \<Rightarrow> string) \<Rightarrow> manager \<Rightarrow> string
     \<Rightarrow> string option \<times> manager" where
  "load_well lasio_read path_stem self file_path =
     (case load_from_las lasio_read path_stem (WellLogData_init ''Unknown Well'') file_path of
        (True, well) \<Rightarrow>
          (Some (name well), self\<lparr>wells := AList.update (name well) well (wells self)\<rparr>)
      | (False, well) \<Rightarrow> (None, self))"

definition get_well :: "manager \<Rightarrow> string \<Rightarrow> well option" where
  "get_well self n = map_of (wells self) n"

section \<open>Tracks and the section canvas\<close>

text \<open>
  A track's \<^verbatim>\<open>axis\<close> is a handle into the figure that \<^verbatim>\<open>setup_display\<close> creates;
  the figure and the drawing calls are not part of the state modelled here.
\<close>

record track =
  track_name :: string
  width :: fl
  color :: string
  track_curves :: "string list"

definition Track :: "string \<Rightarrow> fl \<Rightarrow> string \<Rightarrow> track" where
  "Track n w c = \<lparr>track_name = n, width = w, color = c, track_curves = []\<rparr>"

record canvas =
  depth_range :: "fl \<times> fl"
  tracks :: "track list"
  well_data :: "well option"
  depth_curve :: "string option"
  dragging :: bool
  drag_track_idx :: "nat option"
  drag_start_x :: "fl option"

definition default_tracks :: "track list" where
  "default_tracks =
     [Track ''Depth'' (Fin 0.5) ''black'',
      Track ''GR'' (Fin 1.0) ''green'',
      Track ''Resistivity'' (Fin 1.0) ''blue'',
      Track ''Density'' (Fin 1.0) ''red'',
      Track ''Neutron'' (Fin 1.0) ''purple'']"

definition setup_display :: "canvas \<Rightarrow> canvas" where
  "setup_display self =
     (if tracks self = [] then self\<lparr>tracks := default_tracks\<rparr> else self)"

definition WellSectionCanvas_init :: canvas where
  "WellSectionCanvas_init =
     setup_display
       \<lparr>depth_range = (Fin 0, Fin 1000), tracks = [], well_data = None,
        depth_curve = None, dragging = False, drag_track_idx = None,
        drag_start_x = None\<rparr>"

definition curve_track_map :: "(string \<times> nat) list" where
  "curve_track_map =
     [(''DEPT'', 0), (''DEPTH'', 0), (''MD'', 0), (''TVD'', 0),
      (''GR'', 1), (''GR_EDTC'', 1), (''CGR'', 1),
      (''RT'', 2), (''ILD'', 2), (''LLD'', 2), (''MSFL'', 2), (''LLS'', 2),
      (''RHOB'', 3), (''RHOZ'', 3), (''DRHO'', 3),
      (''NPHI'', 4), (''NPOR'', 4), (''TNPH'', 4)]"

definition get_track_for_curve :: "string \<Rightarrow> nat" where
  "get_track_for_curve curve_name =
     (case map_of curve_track_map curve_name of Some t \<Rightarrow> t | None \<Rightarrow> 1)"

definition curve_colors :: "(string \<times> string) list" where
  "curve_colors =
     [(''GR'', ''green''), (''GR_EDTC'', ''green''),
      (''RHOB'', ''red''), (''RHOZ'', ''red''),
      (''NPHI'', ''blue''), (''NPOR'', ''blue''),
      (''RT'', ''purple''), (''ILD'', ''purple''), (''LLD'', ''purple''),
      (''DT'', ''orange''), (''DTC'', ''orange'')]"

text \<open>Indexing a Python list with a non-negative index raises past the end.\<close>

definition list_get :: "'a list \<Rightarrow> nat \<Rightarrow> py_error + 'a" where
  "list_get xs i = (if i < length xs then Inr (xs ! i) else Inl IndexError)"

text \<open>
  What \<^verbatim>\<open>update_display\<close> draws: one entry per \<^verbatim>\<open>track.axis.plot\<close> call, with the
  index of the track drawn into.
\<close>

record plot =
  plot_track :: nat
  plot_curve :: string
  plot_color :: string

text \<open>
  The loop over the curve names. \<^verbatim>\<open>np.nanmin\<close> raises on an empty array; it is
  reached for every track but the depth track.
\<close>

fun plot_curves :: "track list \<Rightarrow> well \<Rightarrow> string list \<Rightarrow> py_error + plot list" where
  "plot_curves ts w [] = Inr []"
| "plot_curves ts w (curve_name # rest) =
     (case get_curve_data w curve_name of
        None \<Rightarrow> plot_curves ts w rest
      | Some samples \<Rightarrow>
          (let track_idx = get_track_for_curve curve_name in
           if track_idx \<ge> length ts then plot_curves ts w rest
           else
             (case list_get ts track_idx of
                Inl e \<Rightarrow> Inl e
              | Inr track \<Rightarrow>
                  (let c = (case map_of curve_colors curve_name of
                              Some c \<Rightarrow> c | None \<Rightarrow> ''black'')
                   in if 0 < track_idx \<and> samples = [] then Inl ValueError
                      else
                        (case plot_curves ts w rest of
                           Inl e \<Rightarrow> Inl e
                         | Inr ps \<Rightarrow>
                             Inr (\<lparr>plot_track = track_idx, plot_curve = curve_name,
                                   plot_color = c\<rparr> # ps))))))"

text \<open>
  \<^verbatim>\<open>update_display\<close> changes the figure only, so it returns what it drew, or the
  exception that ended it. A well object is always truthy. Without a depth curve the
  depth axis is \<^verbatim>\<open>np.arange(len(self.well_data.data))\<close>, and \<^verbatim>\<open>len(None)\<close> raises.
  After the loop the depth track is read as \<^verbatim>\<open>self.tracks[0]\<close>.
\<close>

definition update_display :: "canvas \<Rightarrow> py_error + plot list" where
  "update_display self =
     (case well_data self of
        None \<Rightarrow> Inr []
      | Some w \<Rightarrow>
          (let depth_data = (case depth_curve self of
                               None \<Rightarrow> None | Some d \<Rightarrow> get_curve_data w d)
           in if depth_data = None \<and> data w = None then Inl TypeError
              else
                (case plot_curves (tracks self) w (get_curve_names w) of
                   Inl e \<Rightarrow> Inl e
                 | Inr ps \<Rightarrow>
                     (case list_get (tracks self) 0 of
                        Inl e \<Rightarrow> Inl e
                      | Inr depth_track \<Rightarrow> Inr ps))))"

text \<open>\<^verbatim>\<open>np.min\<close> and \<^verbatim>\<open>np.max\<close> propagate NaN and raise on an empty array.\<close>

definition np_min :: "fl list \<Rightarrow> py_error + fl" where
  "np_min xs = (if xs = [] then Inl ValueError else Inr (foldl np_minimum (hd xs) (tl xs)))"

definition np_max :: "fl list \<Rightarrow> py_error + fl" where
  "np_max xs = (if xs = [] then Inl ValueError else Inr (foldl np_maximum (hd xs) (tl xs)))"

text \<open>
  A method that assigns to the canvas and can raise returns the exception, if any,
  with the canvas as the call leaves it.
\<close>

definition set_well_data :: "canvas \<Rightarrow> well \<Rightarrow> py_error option \<times> canvas" where
  "set_well_data self w =
     (let self = self\<lparr>well_data := Some w, depth_curve := find_depth_curve w\<rparr>;
          ranged =
            (case depth_curve self of
               None \<Rightarrow> Inr self
             | Some d \<Rightarrow>
                 (case get_curve_data w d of
                    None \<Rightarrow> Inr self
                  | Some depth_data \<Rightarrow>
                      (case np_min depth_data of
                         Inl e \<Rightarrow> Inl e
                       | Inr lo \<Rightarrow>
                           (case np_max depth_data of
                              Inl e \<Rightarrow> Inl e
                            | Inr hi \<Rightarrow> Inr (self\<lparr>depth_range := (lo, hi)\<rparr>)))))
      in case ranged of
           Inl e \<Rightarrow> (Some e, self)
         | Inr self \<Rightarrow>
             (case update_display self of
                Inl e \<Rightarrow> (Some e, self)
              | Inr ps \<Rightarrow> (None, self)))"

definition zoom_to_depth_range :: "canvas \<Rightarrow> fl \<Rightarrow> fl \<Rightarrow> canvas" where
  "zoom_to_depth_range self min_depth max_depth =
     self\<lparr>depth_range := (min_depth, max_depth)\<rparr>"

text \<open>Python's builtin \<^verbatim>\<open>max(a, b)\<close> keeps \<^verbatim>\<open>a\<close> unless \<^verbatim>\<open>b > a\<close>.\<close>

definition py_max :: "fl \<Rightarrow> fl \<Rightarrow> fl" where
  "py_max a b = (if fl_lt a b then b else a)"

record mouse_event =
  xdata :: "fl option"
  ydata :: "fl option"
  inaxes :: bool

text \<open>
  The resize branch of \<^verbatim>\<open>on_motion\<close>. The other branch only updates a label of the
  parent widget. Subtracting \<^verbatim>\<open>None\<close> from a float raises.
\<close>

definition on_motion :: "canvas \<Rightarrow> mouse_event \<Rightarrow> py_error option \<times> canvas" where
  "on_motion self event =
     (case (dragging self, drag_track_idx self, xdata event) of
        (True, Some idx, Some current_x) \<Rightarrow>
          (case drag_start_x self of
             None \<Rightarrow> (Some TypeError, self)
           | Some start \<Rightarrow>
               (let delta_x = fl_sub current_x start;
                    width_change = fl_mul delta_x (Fin 0.01)
                in if idx < length (tracks self) then
                     (let tr = tracks self ! idx;
                          new_width = py_max (Fin 0.1) (fl_add (width tr) width_change);
                          self = self\<lparr>tracks := (tracks self)[idx := tr\<lparr>width := new_width\<rparr>]\<rparr>;
                          self = setup_display self
                      in case well_data self of
                           Some w \<Rightarrow> set_well_data self w
                         | None \<Rightarrow> (None, self))
                   else (None, self)))
      | _ \<Rightarrow> (None, self))"

section \<open>The section widget\<close>

datatype status =
    Ready
  | Depth_range fl fl
  | Invalid_depth_range
  | Invalid_depth_values
  | GR_curve_not_found
  | Shale_volume_calculated
  | RHOB_curve_not_found
  | Porosity_calculated
  | Template_loaded string

text \<open>
  \<^verbatim>\<open>current_well\<close> and the canvas's \<^verbatim>\<open>well_data\<close> are one Python object once a
  well is selected; the model keeps a copy in each place and writes to both.
\<close>

record widget =
  current_well :: "well option"
  canvas :: canvas
  status_label :: status
  min_depth_edit :: string
  max_depth_edit :: string

text \<open>
  \<^verbatim>\<open>float(text)\<close> is Python's builtin, taken as a parameter; \<^const>\<open>None\<close> stands for
  the \<^verbatim>\<open>ValueError\<close> of a text that is no number.
\<close>

definition update_depth_range :: "(string \<Rightarrow> fl option) \<Rightarrow> widget \<Rightarrow> widget" where
  "update_depth_range py_float self =
     (case py_float (min_depth_edit self) of
        None \<Rightarrow> self\<lparr>status_label := Invalid_depth_values\<rparr>
      | Some min_depth \<Rightarrow>
          (case py_float (max_depth_edit self) of
             None \<Rightarrow> self\<lparr>status_label := Invalid_depth_values\<rparr>
           | Some max_depth \<Rightarrow>
               if fl_lt min_depth max_depth then
                 self\<lparr>canvas := zoom_to_depth_range (canvas self) min_depth max_depth,
                      status_label := Depth_range min_depth max_depth\<rparr>
               else self\<lparr>status_label := Invalid_depth_range\<rparr>))"

definition store_curve :: "well \<Rightarrow> string \<Rightarrow> fl list \<Rightarrow> string \<Rightarrow> string \<Rightarrow> well" where
  "store_curve w k v u d =
     w\<lparr>curves := AList.update k v (curves w),
       units := AList.update k u (units w),
       descriptions := AList.update k d (descriptions w)\<rparr>"

definition widget_calculate_shale_volume :: "widget \<Rightarrow> py_error option \<times> widget" where
  "widget_calculate_shale_volume self =
     (case current_well self of
        None \<Rightarrow> (None, self)
      | Some w \<Rightarrow>
          (case calculate_shale_volume_default w of
             (None, w) \<Rightarrow> (None, self\<lparr>current_well := Some w, status_label := GR_curve_not_found\<rparr>)
           | (Some vsh, w) \<Rightarrow>
               (let w = store_curve w ''VSH'' vsh ''fraction'' ''Shale Volume'';
                    self = self\<lparr>current_well := Some w,
                                canvas := (canvas self)\<lparr>well_data := Some w\<rparr>\<rparr>
                in case update_display (canvas self) of
                     Inl e \<Rightarrow> (Some e, self)
                   | Inr ps \<Rightarrow> (None, self\<lparr>status_label := Shale_volume_calculated\<rparr>))))"

definition widget_calculate_porosity :: "widget \<Rightarrow> py_error option \<times> widget" where
  "widget_calculate_porosity self =
     (case current_well self of
        None \<Rightarrow> (None, self)
      | Some w \<Rightarrow>
          (case calculate_porosity_default w of
             (None, w) \<Rightarrow> (None, self\<lparr>current_well := Some w, status_label := RHOB_curve_not_found\<rparr>)
           | (Some phi, w) \<Rightarrow>
               (let w = store_curve w ''PHI'' phi ''fraction'' ''Porosity'';
                    self = self\<lparr>current_well := Some w,
                                canvas := (canvas self)\<lparr>well_data := Some w\<rparr>\<rparr>
                in case update_display (canvas self) of
                     Inl e \<Rightarrow> (Some e, self)
                   | Inr ps \<Rightarrow> (None, self\<lparr>status_label := Porosity_calculated\<rparr>))))"

text \<open>
  What \<^verbatim>\<open>json.load\<close> returns for a template file, as far as \<^verbatim>\<open>load_template\<close> reads
  it: a dictionary with the keys \<^verbatim>\<open>name\<close> and \<^verbatim>\<open>tracks\<close>, and for each track a
  dictionary with the keys \<^verbatim>\<open>name\<close>, \<^verbatim>\<open>width\<close>, \<^verbatim>\<open>color\<close> and \<^verbatim>\<open>curves\<close>. A
  key that is missing is \<^const>\<open>None\<close>, and reading it raises \<^verbatim>\<open>KeyError\<close>. The values are
  taken as they come: \<^verbatim>\<open>Track\<close> checks no types.
\<close>

record track_data =
  td_name :: "string option"
  td_width :: "fl option"
  td_color :: "string option"
  td_curves :: "string list option"

record template =
  template_name :: "string option"
  template_tracks :: "track_data list option"

text \<open>
  The loop of \<^verbatim>\<open>load_template\<close> over the tracks of the template. The three arguments
  of \<^verbatim>\<open>Track\<close> are read first and \<^verbatim>\<open>curves\<close> after it; the track is appended last. A
  \<^verbatim>\<open>KeyError\<close> ends the loop with the tracks appended so far.
\<close>

fun load_template_tracks :: "track list \<Rightarrow> track_data list \<Rightarrow> py_error option \<times> track list" where
  "load_template_tracks ts [] = (None, ts)"
| "load_template_tracks ts (td # rest) =
     (case (td_name td, td_width td, td_color td, td_curves td) of
        (Some n, Some w, Some c, Some cs) \<Rightarrow>
          load_template_tracks (ts @ [(Track n w c)\<lparr>track_curves := cs\<rparr>]) rest
      | _ \<Rightarrow> (Some KeyError, ts))"

text \<open>
  \<^verbatim>\<open>load_template\<close> once a template file has been chosen. The body is one
  \<^verbatim>\<open>try\<close> block whose \<^verbatim>\<open>except Exception\<close> clause shows a message box, so no exception
  leaves it: the model returns the exception caught, if any, with the widget as the
  block leaves it. The file is read by \<^verbatim>\<open>json.load\<close>, taken as a parameter; a file
  that cannot be read or parsed is \<^const>\<open>Inl\<close>. The track list is emptied before the
  first key of the template is read, and \<^verbatim>\<open>setup_display\<close> runs only after the loop
  has ended without an exception. A track appended by the loop has no axis until
  \<^verbatim>\<open>setup_display\<close> has run; the axes are not part of the state modelled here.
\<close>

definition load_template :: "widget \<Rightarrow> py_error + template \<Rightarrow> py_error option \<times> widget" where
  "load_template self json_load =
     (case json_load of
        Inl e \<Rightarrow> (Some e, self)
      | Inr template_data \<Rightarrow>
          (let cv = (canvas self)\<lparr>tracks := []\<rparr> in
           case template_tracks template_data of
             None \<Rightarrow> (Some KeyError, self\<lparr>canvas := cv\<rparr>)
           | Some tds \<Rightarrow>
               (case load_template_tracks (tracks cv) tds of
                  (Some e, ts) \<Rightarrow> (Some e, self\<lparr>canvas := cv\<lparr>tracks := ts\<rparr>\<rparr>)
                | (None, ts) \<Rightarrow>
                    (let cv = setup_display (cv\<lparr>tracks := ts\<rparr>);
                         (raised, cv) = (case current_well self of
                                           Some w \<Rightarrow> set_well_data cv w
                                         | None \<Rightarrow> (None, cv))
                     in case raised of
                          Some e \<Rightarrow> (Some e, self\<lparr>canvas := cv\<rparr>)
                        | None \<Rightarrow>
                            (case template_name template_data of
                               None \<Rightarrow> (Some KeyError, self\<lparr>canvas := cv\<rparr>)
                             | Some n \<Rightarrow>
                                 (None, self\<lparr>canvas := cv,
                                            status_label := Template_loaded n\<rparr>))))))"

text \<open>A track after a drag from \<open>x0\<close> to \<open>x\<close>, as \<^verbatim>\<open>on_motion\<close> computes its width.\<close>

definition resized :: "track \<Rightarrow> fl \<Rightarrow> fl \<Rightarrow> track" where
  "resized tr x x0 =
     tr\<lparr>width := py_max (Fin 0.1) (fl_add (width tr) (fl_mul (fl_sub x x0) (Fin 0.01)))\<rparr>"

section \<open>Example wells\<close>

text \<open>A well as a successful load leaves it: the frame and the curves hold the same columns.\<close>

definition loaded_well :: "string \<Rightarrow> (string \<times> fl list) list \<Rightarrow> well" where
  "loaded_well n cs = (WellLogData_init n)\<lparr>data := Some cs, curves := cs\<rparr>"

definition example_well :: well where
  "example_well =
     loaded_well ''W''
       [(''GR'', [Fin 30, Fin 90, Fin 150]), (''RHOB'', [Fin 2.65, Fin 1.825, Fin 1.0])]"

text \<open>
  A well whose samples are binary fractions: with the constants 30 and 150, and 1.0 and
  2.5, every intermediate value of the two derivations is a \<^verbatim>\<open>float64\<close>, so the
  arithmetic rounds nothing.
\<close>

definition dyadic_well :: well where
  "dyadic_well =
     loaded_well ''W''
       [(''GR'', [Fin 30, Fin 90, Fin 150]), (''RHOB'', [Fin 2.5, Fin 1.75, Fin 1.0])]"

text \<open>A well with samples of large magnitude; \<open>2^1023\<close> is a \<^verbatim>\<open>float64\<close>.\<close>

definition overflow_well :: well where
  "overflow_well =
     loaded_well ''W''
       [(''GR'', [Fin 0, Fin (2 ^ 1023)]), (''RHOB'', [Fin (- (2 ^ 1023)), Fin 0])]"

text \<open>A well whose curves hold one null sample; a LAS null value is read as NaN.\<close>

definition null_sample_well :: well where
  "null_sample_well = loaded_well ''W'' [(''GR'', [NaN]), (''RHOB'', [NaN])]"

definition example_widget :: widget where
  "example_widget =
     \<lparr>current_well = Some example_well,
      canvas = WellSectionCanvas_init\<lparr>well_data := Some example_well\<rparr>,
      status_label = Ready, min_depth_edit = ''0'', max_depth_edit = ''1000''\<rparr>"

text \<open>A well with depth curves only, and a widget showing it.\<close>

definition bare_well :: well where
  "bare_well =
     loaded_well ''W'' [(''DEPTH'', [Fin 100, Fin 200]), (''MD'', [Fin 100, Fin 200])]"

definition bare_widget :: widget where
  "bare_widget =
     \<lparr>current_well = Some bare_well,
      canvas = WellSectionCanvas_init\<lparr>well_data := Some bare_well\<rparr>,
      status_label = Ready, min_depth_edit = ''0'', max_depth_edit = ''1000''\<rparr>"

text \<open>A well holding all four depth mnemonics, stored in reverse priority order.\<close>

definition all_depth_well :: well where
  "all_depth_well =
     loaded_well ''W''
       [(''TVD'', [Fin 1]), (''MD'', [Fin 1]), (''DEPTH'', [Fin 1]),
        (''DEPT'', [Fin 1]), (''GR'', [Fin 40])]"

text \<open>A reading of three texts as floats; every other text is no number.\<close>

definition example_float :: "string \<Rightarrow> fl option" where
  "example_float s =
     (if s = ''0'' then Some (Fin 0)
      else if s = ''100'' then Some (Fin 100)
      else if s = ''500'' then Some (Fin 500)
      else if s = ''nan'' then Some NaN
      else None)"

definition edit_widget :: "string \<Rightarrow> string \<Rightarrow> widget" where
  "edit_widget lo hi =
     \<lparr>current_well = None, canvas = WellSectionCanvas_init, status_label = Ready,
      min_depth_edit = lo, max_depth_edit = hi\<rparr>"

text \<open>A curve file with two curves, one with mismatched columns, and a reader of both.\<close>

definition example_las :: las_file where
  "example_las =
     \<lparr>well_WELL = Some ''A-1'',
      las_curves =
        [\<lparr>mnemonic = ''DEPT'', unit = ''M'', descr = ''Depth'', curve_data = [Fin 100, Fin 101]\<rparr>,
         \<lparr>mnemonic = ''GR'', unit = ''GAPI'', descr = [], curve_data = [Fin 40, NaN]\<rparr>]\<rparr>"

definition ragged_las :: las_file where
  "ragged_las =
     \<lparr>well_WELL = None,
      las_curves =
        [\<lparr>mnemonic = ''DEPT'', unit = ''M'', descr = ''Depth'', curve_data = [Fin 100, Fin 101]\<rparr>,
         \<lparr>mnemonic = ''GR'', unit = ''GAPI'', descr = [], curve_data = [Fin 40]\<rparr>]\<rparr>"

definition example_reader :: "string \<Rightarrow> py_error + las_file" where
  "example_reader file_path =
     (if file_path = ''a1.las'' then Inr example_las
      else if file_path = ''ragged.las'' then Inr ragged_las
      else Inl ReadError)"

definition example_stem :: "string \<Rightarrow> string" where
  "example_stem file_path = takeWhile (\<lambda>c. c \<noteq> CHR ''.'') file_path"

definition example_manager :: manager where
  "example_manager = \<lparr>wells = [(''W'', example_well)]\<rparr>"

text \<open>A canvas in the middle of a drag on the GR track, and a motion event.\<close>

definition dragging_canvas :: canvas where
  "dragging_canvas =
     WellSectionCanvas_init
       \<lparr>well_data := Some example_well, dragging := True, drag_track_idx := Some 1,
        drag_start_x := Some (Fin 50)\<rparr>"

definition motion_to :: "fl \<Rightarrow> mouse_event" where
  "motion_to x = \<lparr>xdata = Some x, ydata = Some (Fin 0), inaxes = True\<rparr>"

text \<open>A canvas whose track list came from a template with two tracks.\<close>

definition two_track_canvas :: canvas where
  "two_track_canvas =
     WellSectionCanvas_init
       \<lparr>tracks := [Track ''Depth'' (Fin 0.5) ''black'', Track ''GR'' (Fin 1.0) ''green''],
        well_data := Some example_well\<rparr>"

text \<open>
  Two template files as \<^verbatim>\<open>json.load\<close> returns them: one with a depth track and a GR
  track, as \<^verbatim>\<open>save_template\<close> writes it, and one that is a JSON object with a name
  and no \<^verbatim>\<open>tracks\<close> key.
\<close>

definition two_track_template :: template where
  "two_track_template =
     \<lparr>template_name = Some ''short'',
      template_tracks =
        Some [\<lparr>td_name = Some ''Depth'', td_width = Some (Fin 0.5), td_color = Some ''black'',
                td_curves = Some []\<rparr>,
              \<lparr>td_name = Some ''GR'', td_width = Some (Fin 1.0), td_color = Some ''green'',
                td_curves = Some []\<rparr>]\<rparr>"

definition no_tracks_template :: template where
  "no_tracks_template = \<lparr>template_name = Some ''notes'', template_tracks = None\<rparr>"

section \<open>Workspace state\<close>

text \<open>
  The session state is whatever \<^verbatim>\<open>json.loads\<close> returned last, or the initial dictionary.
  A JSON value is modelled with integers as its only numbers: a float has no
  counterpart here. Text is a list of 8-bit characters. A Python \<^verbatim>\<open>dict\<close> is an
  association list in insertion order; its keys are distinct (\<open>wf_json\<close> below).
\<close>

datatype json =
    JNull
  | JBool bool
  | JNum int
  | JStr string
  | JArr "json list"
  | JObj "(string \<times> json) list"

abbreviation quote :: char where "quote \<equiv> CHR 0x22"
abbreviation backslash :: char where "backslash \<equiv> CHR 0x5C"
abbreviation newline :: char where "newline \<equiv> CHR 0x0A"

subsection \<open>Comment stripping\<close>

text \<open>
  \<^verbatim>\<open>re.sub(r'/\*.*?\*/', '', s, flags=re.S)\<close>: scanning from the left, a \<^verbatim>\<open>/*\<close> is
  removed together with everything up to the first \<^verbatim>\<open>*/\<close> that starts after it; a
  \<^verbatim>\<open>/*\<close> that is never closed stays. \<open>find_close\<close> returns the text after that first
  \<^verbatim>\<open>*/\<close>.
\<close>

fun find_close :: "string \<Rightarrow> string option" where
  "find_close (a # b # cs) =
     (if a = CHR ''*'' \<and> b = CHR ''/'' then Some cs else find_close (b # cs))"
| "find_close cs = None"

lemma find_close_shorter: "find_close cs = Some r \<Longrightarrow> length r < length cs"
  by (induction cs rule: find_close.induct) (auto split: if_splits)

function strip_block :: "string \<Rightarrow> string" where
  "strip_block [] = []"
| "strip_block [c] = [c]"
| "strip_block (a # b # cs) =
     (if a = CHR ''/'' \<and> b = CHR ''*'' then
        (case find_close cs of
           Some rest \<Rightarrow> strip_block rest
         | None \<Rightarrow> a # strip_block (b # cs))
      else a # strip_block (b # cs))"
  by pat_completeness auto
termination
  by (relation "measure length") (auto dest: find_close_shorter)

text \<open>
  \<^verbatim>\<open>re.sub(r'//.*$', '', s, flags=re.M)\<close>: a \<^verbatim>\<open>//\<close> is removed together with the rest
  of its line; the newline stays.
\<close>

function strip_line :: "string \<Rightarrow> string" where
  "strip_line [] = []"
| "strip_line [c] = [c]"
| "strip_line (a # b # cs) =
     (if a = CHR ''/'' \<and> b = CHR ''/'' then strip_line (dropWhile (\<lambda>c. c \<noteq> newline) cs)
      else a # strip_line (b # cs))"
  by pat_completeness auto
termination
  by (relation "measure length") (auto simp: length_dropWhile_le le_imp_less_Suc less_Suc_eq_le
     intro: le_trans[OF length_dropWhile_le])

text \<open>Block comments first, then line comments; neither looks at JSON strings.\<close>

definition strip_json_comments :: "string \<Rightarrow> string" where
  "strip_json_comments s = strip_line (strip_block s)"

subsection \<open>Writing JSON\<close>

text \<open>
  \<^verbatim>\<open>json.dump(self.state, f, indent=2, ensure_ascii=False)\<close>. A string is written
  between quotes with the quote, the backslash and the control characters below
  \<^verbatim>\<open>0x20\<close> escaped; every other character, the slash among them, is written as it is.
  \<open>hexdigit\<close> is only ever applied to a digit below 16.
\<close>

definition hexdigit :: "nat \<Rightarrow> char" where
  "hexdigit d = ''0123456789abcdef'' ! d"

definition escape_char :: "char \<Rightarrow> string" where
  "escape_char c =
     (if c = quote then [backslash, quote]
      else if c = backslash then [backslash, backslash]
      else if c = newline then [backslash, CHR ''n'']
      else if c = CHR 0x0D then [backslash, CHR ''r'']
      else if c = CHR 0x09 then [backslash, CHR ''t'']
      else if c = CHR 0x08 then [backslash, CHR ''b'']
      else if c = CHR 0x0C then [backslash, CHR ''f'']
      else if of_char c < (32::nat) then
        [backslash, CHR ''u'', CHR ''0'', CHR ''0'',
         hexdigit (of_char c div 16), hexdigit (of_char c mod 16)]
      else [c])"

definition encode_basestring :: "string \<Rightarrow> string" where
  "encode_basestring s = quote # concat (map escape_char s) @ [quote]"

fun digits :: "nat \<Rightarrow> string" where
  "digits n = (if n < 10 then [hexdigit n] else digits (n div 10) @ [hexdigit (n mod 10)])"

declare digits.simps [simp del]

definition int_repr :: "int \<Rightarrow> string" where
  "int_repr i = (if i < 0 then CHR ''-'' # digits (nat (- i)) else digits (nat i))"

text \<open>
  With \<^verbatim>\<open>indent=2\<close> every item of a non-empty list or dictionary starts on a new line,
  two spaces deeper; items are separated by a comma, a key from its value by
  \<^verbatim>\<open>": "\<close>. Empty containers are \<^verbatim>\<open>[]\<close> and \<^verbatim>\<open>{}\<close>.
\<close>

definition newline_indent :: "nat \<Rightarrow> string" where
  "newline_indent level = newline # replicate (2 * level) CHR '' ''"

fun join :: "string \<Rightarrow> string list \<Rightarrow> string" where
  "join sep [] = []"
| "join sep [x] = x"
| "join sep (x # y # ys) = x @ sep @ join sep (y # ys)"

fun iterencode :: "nat \<Rightarrow> json \<Rightarrow> string" where
  "iterencode level JNull = ''null''"
| "iterencode level (JBool b) = (if b then ''true'' else ''false'')"
| "iterencode level (JNum i) = int_repr i"
| "iterencode level (JStr s) = encode_basestring s"
| "iterencode level (JArr xs) =
     (if xs = [] then ''[]''
      else ''['' @ newline_indent (Suc level)
           @ join (CHR '','' # newline_indent (Suc level)) (map (iterencode (Suc level)) xs)
           @ newline_indent level @ '']'')"
| "iterencode level (JObj kvs) =
     (if kvs = [] then ''{}''
      else ''{'' @ newline_indent (Suc level)
           @ join (CHR '','' # newline_indent (Suc level))
               (map (\<lambda>(k, v). encode_basestring k @ '': '' @ iterencode (Suc level) v) kvs)
           @ newline_indent level @ ''}'')"

definition json_dump :: "json \<Rightarrow> string" where
  "json_dump v = iterencode 0 v"

subsection \<open>Reading JSON\<close>

text \<open>
  \<^verbatim>\<open>json.loads\<close>. \<open>scanstring\<close> reads a string after its opening quote, in strict mode:
  a raw control character ends the parse with an error. A \<^verbatim>\<open>\u\<close> escape above
  \<^verbatim>\<open>00ff\<close> is outside the 8-bit characters of the model and reads as an error here.
\<close>

definition is_ws :: "char \<Rightarrow> bool" where
  "is_ws c = (c = CHR '' '' \<or> c = CHR 0x09 \<or> c = newline \<or> c = CHR 0x0D)"

definition skip_ws :: "string \<Rightarrow> string" where
  "skip_ws s = dropWhile is_ws s"

definition hexval :: "char \<Rightarrow> nat option" where
  "hexval c =
     (let n = of_char c in
      if 48 \<le> n \<and> n \<le> 57 then Some (n - 48)
      else if 97 \<le> n \<and> n \<le> 102 then Some (n - 87)
      else if 65 \<le> n \<and> n \<le> 70 then Some (n - 55)
      else None)"

definition unescape :: "char \<Rightarrow> char option" where
  "unescape e =
     (if e = quote then Some quote
      else if e = backslash then Some backslash
      else if e = CHR ''/'' then Some CHR ''/''
      else if e = CHR ''b'' then Some (CHR 0x08)
      else if e = CHR ''f'' then Some (CHR 0x0C)
      else if e = CHR ''n'' then Some newline
      else if e = CHR ''r'' then Some (CHR 0x0D)
      else if e = CHR ''t'' then Some (CHR 0x09)
      else None)"

definition decode_uXXXX :: "char \<Rightarrow> char \<Rightarrow> char \<Rightarrow> char \<Rightarrow> char option" where
  "decode_uXXXX a b c d =
     (case (hexval a, hexval b, hexval c, hexval d) of
        (Some h3, Some h2, Some h1, Some h0) \<Rightarrow>
          (let n = ((h3 * 16 + h2) * 16 + h1) * 16 + h0
           in if n < 256 then Some (char_of n) else None)
      | _ \<Rightarrow> None)"

fun scanstring :: "string \<Rightarrow> (string \<times> string) option" where
  "scanstring [] = None"
| "scanstring (c # cs) =
     (if c = quote then Some ([], cs)
      else if c = backslash then
        (case cs of
           [] \<Rightarrow> None
         | e # r \<Rightarrow>
             if e = CHR ''u'' then
               (case r of
                  a # b # c # d # r' \<Rightarrow>
                    (case decode_uXXXX a b c d of
                       None \<Rightarrow> None
                     | Some ch \<Rightarrow> map_option (\<lambda>(s, t). (ch # s, t)) (scanstring r'))
                | _ \<Rightarrow> None)
             else
               (case unescape e of
                  None \<Rightarrow> None
                | Some ch \<Rightarrow> map_option (\<lambda>(s, t). (ch # s, t)) (scanstring r)))
      else if of_char c < (32::nat) then None
      else map_option (\<lambda>(s, t). (c # s, t)) (scanstring cs))"

text \<open>
  A number is \<^verbatim>\<open>-?(0|[1-9][0-9]*)\<close> with an optional fraction and exponent. With a
  fraction or an exponent it is a float, which the value type leaves out: the model
  gives \<^const>\<open>None\<close> where Python reads a float.
\<close>

definition is_digit :: "char \<Rightarrow> bool" where
  "is_digit c = (48 \<le> (of_char c :: nat) \<and> (of_char c :: nat) \<le> 57)"

fun scan_digits :: "nat \<Rightarrow> string \<Rightarrow> nat \<times> string" where
  "scan_digits acc [] = (acc, [])"
| "scan_digits acc (c # cs) =
     (if is_digit c then scan_digits (10 * acc + (of_char c - 48)) cs else (acc, c # cs))"

definition scan_integer :: "string \<Rightarrow> (nat \<times> string) option" where
  "scan_integer s =
     (case s of
        [] \<Rightarrow> None
      | c # cs \<Rightarrow>
          if c = CHR ''0'' then Some (0, cs)
          else if is_digit c then Some (scan_digits 0 s)
          else None)"

definition frac_or_exp :: "string \<Rightarrow> bool" where
  "frac_or_exp s =
     (case s of
        c # d # r \<Rightarrow>
          (c = CHR ''.'' \<and> is_digit d)
          \<or> ((c = CHR ''e'' \<or> c = CHR ''E'')
              \<and> (is_digit d
                  \<or> ((d = CHR ''+'' \<or> d = CHR ''-'')
                      \<and> (case r of x # r' \<Rightarrow> is_digit x | [] \<Rightarrow> False))))
      | _ \<Rightarrow> False)"

definition scan_number :: "string \<Rightarrow> (json \<times> string) option" where
  "scan_number s =
     (case s of
        [] \<Rightarrow> None
      | c # cs \<Rightarrow>
          if c = CHR ''-'' then
            (case scan_integer cs of
               None \<Rightarrow> None
             | Some (n, r) \<Rightarrow> if frac_or_exp r then None else Some (JNum (- int n), r))
          else
            (case scan_integer s of
               None \<Rightarrow> None
             | Some (n, r) \<Rightarrow> if frac_or_exp r then None else Some (JNum (int n), r)))"

text \<open>The pairs of an object become a \<^verbatim>\<open>dict\<close>: a repeated key keeps its last value.\<close>

definition dict_of_pairs :: "(string \<times> json) list \<Rightarrow> (string \<times> json) list" where
  "dict_of_pairs ps = foldl (\<lambda>d (k, v). AList.update k v d) [] ps"

text \<open>
  The scanner descends into lists and objects. The recursion is on a fuel argument
  that every call decreases; \<open>json_loads\<close> starts it above the length of the text, which
  no descent can exhaust, since every call consumes a character. A value neither of
  the literals nor a string, list or object is tried as a number.
\<close>

fun scan_once :: "nat \<Rightarrow> string \<Rightarrow> (json \<times> string) option"
  and scan_array :: "nat \<Rightarrow> string \<Rightarrow> (json list \<times> string) option"
  and scan_object :: "nat \<Rightarrow> string \<Rightarrow> ((string \<times> json) list \<times> string) option"
where
  "scan_once 0 s = None"
| "scan_once (Suc n) s =
     (case s of
        [] \<Rightarrow> None
      | c # cs \<Rightarrow>
          if c = quote then
            (case scanstring cs of None \<Rightarrow> None | Some (str, r) \<Rightarrow> Some (JStr str, r))
          else if c = CHR ''{'' then
            (case skip_ws cs of
               [] \<Rightarrow> None
             | d # r \<Rightarrow>
                 if d = CHR ''}'' then Some (JObj [], r)
                 else (case scan_object n (d # r) of
                         None \<Rightarrow> None
                       | Some (ps, r') \<Rightarrow> Some (JObj (dict_of_pairs ps), r')))
          else if c = CHR ''['' then
            (case skip_ws cs of
               [] \<Rightarrow> None
             | d # r \<Rightarrow>
                 if d = CHR '']'' then Some (JArr [], r)
                 else (case scan_array n (d # r) of
                         None \<Rightarrow> None
                       | Some (vs, r') \<Rightarrow> Some (JArr vs, r')))
          else if take 4 s = ''null'' then Some (JNull, drop 4 s)
          else if take 4 s = ''true'' then Some (JBool True, drop 4 s)
          else if take 5 s = ''false'' then Some (JBool False, drop 5 s)
          else scan_number s)"
| "scan_array 0 s = None"
| "scan_array (Suc n) s =
     (case scan_once n s of
        None \<Rightarrow> None
      | Some (v, r) \<Rightarrow>
          (case skip_ws r of
             [] \<Rightarrow> None
           | d # r' \<Rightarrow>
               if d = CHR '']'' then Some ([v], r')
               else if d = CHR '','' then
                 (case scan_array n (skip_ws r') of
                    None \<Rightarrow> None
                  | Some (vs, r'') \<Rightarrow> Some (v # vs, r''))
               else None))"
| "scan_object 0 s = None"
| "scan_object (Suc n) s =
     (case s of
        [] \<Rightarrow> None
      | q # cs \<Rightarrow>
          if q \<noteq> quote then None
          else
            (case scanstring cs of
               None \<Rightarrow> None
             | Some (k, r) \<Rightarrow>
                 (case skip_ws r of
                    [] \<Rightarrow> None
                  | colon # r1 \<Rightarrow>
                      if colon \<noteq> CHR '':'' then None
                      else
                        (case scan_once n (skip_ws r1) of
                           None \<Rightarrow> None
                         | Some (v, r2) \<Rightarrow>
                             (case skip_ws r2 of
                                [] \<Rightarrow> None
                              | d # r3 \<Rightarrow>
                                  if d = CHR ''}'' then Some ([(k, v)], r3)
                                  else if d = CHR '','' then
                                    (case scan_object n (skip_ws r3) of
                                       None \<Rightarrow> None
                                     | Some (ps, r4) \<Rightarrow> Some ((k, v) # ps, r4))
                                  else None)))))"

text \<open>
  \<^verbatim>\<open>json.loads\<close> skips white space before the value and accepts nothing but white space
  after it. \<^const>\<open>None\<close> stands for \<^verbatim>\<open>JSONDecodeError\<close>.
\<close>

definition json_loads :: "string \<Rightarrow> json option" where
  "json_loads s =
     (case scan_once (Suc (length s)) (skip_ws s) of
        None \<Rightarrow> None
      | Some (v, r) \<Rightarrow> if skip_ws r = [] then Some v else None)"

subsection \<open>WorkspaceState\<close>

record workspace =
  state :: json

definition WorkspaceState_init :: workspace where
  "WorkspaceState_init =
     \<lparr>state = JObj [(''open_views'', JArr []), (''layout'', JObj []), (''last_opened'', JNull)]\<rparr>"

text \<open>
  \<^verbatim>\<open>str.strip\<close> and \<^verbatim>\<open>str.splitlines\<close> on 8-bit characters: the white space that
  \<^verbatim>\<open>strip\<close> removes, and the line boundaries, with \<^verbatim>\<open>\r\n\<close> counting as one.
\<close>

definition is_space :: "char \<Rightarrow> bool" where
  "is_space c =
     (let n = (of_char c :: nat)
      in (9 \<le> n \<and> n \<le> 13) \<or> (28 \<le> n \<and> n \<le> 32) \<or> n = 133 \<or> n = 160)"

definition is_linebreak :: "char \<Rightarrow> bool" where
  "is_linebreak c =
     (let n = (of_char c :: nat)
      in (10 \<le> n \<and> n \<le> 13) \<or> (28 \<le> n \<and> n \<le> 30) \<or> n = 133)"

fun splitlines_from :: "string \<Rightarrow> string \<Rightarrow> string list" where
  "splitlines_from cur [] = (if cur = [] then [] else [cur])"
| "splitlines_from cur (c # cs) =
     (if c = CHR 0x0D \<and> (case cs of d # r \<Rightarrow> d = newline | [] \<Rightarrow> False)
        then cur # splitlines_from [] (tl cs)
      else if is_linebreak c then cur # splitlines_from [] cs
      else splitlines_from (cur @ [c]) cs)"

definition splitlines :: "string \<Rightarrow> string list" where
  "splitlines s = splitlines_from [] s"

text \<open>
  The header of \<^verbatim>\<open>save\<close>: when the state has a string under \<^verbatim>\<open>_comment\<close> that is not
  blank, one \<^verbatim>\<open>// \<close> line for each of its lines.
\<close>

definition comment_header :: "(string \<times> json) list \<Rightarrow> string" where
  "comment_header kvs =
     (case map_of kvs ''_comment'' of
        Some (JStr c) \<Rightarrow>
          if list_ex (\<lambda>ch. \<not> is_space ch) c
          then concat (map (\<lambda>ln. ''// '' @ ln @ [newline]) (splitlines c))
          else []
      | _ \<Rightarrow> [])"

text \<open>
  The file at \<^verbatim>\<open>self.path\<close> is its text, or \<^const>\<open>None\<close> when it does not exist.
\<close>

definition save :: "workspace \<Rightarrow> string option \<Rightarrow> bool \<times> string option" where
  "save self file =
     (case state self of
        JObj kvs \<Rightarrow> (True, Some (comment_header kvs @ json_dump (state self)))
      | _ \<Rightarrow> (False, file))"

text \<open>
  \<^verbatim>\<open>load\<close> returns its flag and \<^verbatim>\<open>self\<close> as the call leaves it. A state that is no
  dictionary has no \<^verbatim>\<open>get\<close>: \<^verbatim>\<open>save\<close> catches the exception and returns false without
  touching the file. Errors of the file system are not modelled.
\<close>

definition load :: "workspace \<Rightarrow> string option \<Rightarrow> bool \<times> workspace" where
  "load self file =
     (case file of
        None \<Rightarrow> (False, self)
      | Some raw \<Rightarrow>
          (case json_loads (strip_json_comments raw) of
             None \<Rightarrow> (False, self)
           | Some v \<Rightarrow> (True, self\<lparr>state := v\<rparr>)))"

text \<open>
  The state that \<^verbatim>\<open>autosave\<close> writes: the open tabs, the theme, and no last file; a text
  tab with its content; and a state with a \<^verbatim>\<open>_comment\<close> added.
\<close>

definition session :: "json list \<Rightarrow> string \<Rightarrow> workspace" where
  "session views theme =
     \<lparr>state = JObj [(''open_views'', JArr views),
                    (''layout'', JObj [(''theme'', JStr theme)]),
                    (''last_opened'', JNull)]\<rparr>"

definition text_view :: "string \<Rightarrow> string \<Rightarrow> json" where
  "text_view title content =
     JObj [(''type'', JStr ''text''), (''title'', JStr title), (''content'', JStr content)]"

definition commented :: "string \<Rightarrow> workspace \<Rightarrow> workspace" where
  "commented c ws =
     (case state ws of JObj kvs \<Rightarrow> \<lparr>state = JObj (kvs @ [(''_comment'', JStr c)])\<rparr> | _ \<Rightarrow> ws)"

text \<open>
  Notions for the round trip: what may follow a value in the written text, dictionaries
  with distinct keys, the first character of a written value, and a written member of
  an object.
\<close>

definition delimited :: "string \<Rightarrow> bool" where
  "delimited rest = (case rest of [] \<Rightarrow> True | c # cs \<Rightarrow> c = CHR '','' \<or> c = newline)"

fun wf_json :: "json \<Rightarrow> bool" where
  "wf_json (JArr xs) = (\<forall>x \<in> set xs. wf_json x)"
| "wf_json (JObj kvs) = (distinct (map fst kvs) \<and> (\<forall>kv \<in> set kvs. wf_json (snd kv)))"
| "wf_json v = True"

definition value_start :: "char \<Rightarrow> bool" where
  "value_start c = (\<not> is_ws c \<and> c \<noteq> CHR '']'' \<and> c \<noteq> CHR ''}'' \<and> c \<noteq> CHR '','')"

definition member :: "nat \<Rightarrow> string \<times> json \<Rightarrow> string" where
  "member L kv = encode_basestring (fst kv) @ '': '' @ iterencode L (snd kv)"

text \<open>
  \<open>occurs2 a b s\<close>: the character \<open>a\<close> directly followed by \<open>b\<close> occurs in \<open>s\<close>. A string
  is free of comment markers when it contains neither \<^verbatim>\<open>//\<close> nor \<^verbatim>\<open>/*\<close>, and a state is
  when all its strings, keys and values, are.
\<close>

fun occurs2 :: "char \<Rightarrow> char \<Rightarrow> string \<Rightarrow> bool" where
  "occurs2 a b (x # y # s) = ((x = a \<and> y = b) \<or> occurs2 a b (y # s))"
| "occurs2 a b s = False"

definition markers_free :: "string \<Rightarrow> bool" where
  "markers_free s = (\<not> occurs2 CHR ''/'' CHR ''/'' s \<and> \<not> occurs2 CHR ''/'' CHR ''*'' s)"

fun comment_free :: "json \<Rightarrow> bool" where
  "comment_free (JStr s) = markers_free s"
| "comment_free (JArr xs) = (\<forall>x \<in> set xs. comment_free x)"
| "comment_free (JObj kvs) =
     (\<forall>kv \<in> set kvs. markers_free (fst kv) \<and> comment_free (snd kv))"
| "comment_free v = True"

text \<open>\<^verbatim>\<open>state.get('open_views')\<close> and \<^verbatim>\<open>state.get('layout', {}).get('theme')\<close>.\<close>

definition state_get :: "json \<Rightarrow> string \<Rightarrow> json option" where
  "state_get v k = (case v of JObj kvs \<Rightarrow> map_of kvs k | _ \<Rightarrow> None)"

definition open_views :: "workspace \<Rightarrow> json option" where
  "open_views ws = state_get (state ws) ''open_views''"

definition layout_theme :: "workspace \<Rightarrow> json option" where
  "layout_theme ws =
     (case state_get (state ws) ''layout'' of
        Some l \<Rightarrow> state_get l ''theme''
      | None \<Rightarrow> None)"

text \<open>
  A piece of text is \<open>clean b\<close> when it has no slash directly followed by \<open>b\<close> and does not
  end in a slash; such pieces can be put together without a marker arising.
\<close>

definition clean :: "char \<Rightarrow> string \<Rightarrow> bool" where
  "clean b t = (\<not> occurs2 CHR ''/'' b t \<and> (t \<noteq> [] \<longrightarrow> last t \<noteq> CHR ''/''))"

text \<open>The lines that \<^verbatim>\<open>save\<close> turns into header comments.\<close>

definition header_lines :: "(string \<times> json) list \<Rightarrow> string list" where
  "header_lines kvs =
     (case map_of kvs ''_comment'' of
        Some (JStr c) \<Rightarrow> if list_ex (\<lambda>ch. \<not> is_space ch) c then splitlines c else []
      | _ \<Rightarrow> [])"

text \<open>
  Three sessions: one with a header comment and a slash in a tab, one whose tab holds a
  block comment, and one whose tab holds a URL.
\<close>

definition example_session :: workspace where
  "example_session =
     commented (''my session'' @ [newline] @ ''second line'')
       (session [text_view ''T1.py'' ''x = 1 / 2'', JObj [(''type'', JStr ''view''),
                  (''title'', JStr ''Map''), (''view_type'', JStr ''Map''), (''content'', JNull)]]
          ''dark'')"

definition block_session :: workspace where
  "block_session = session [text_view ''notes.txt'' ''a/*b*/c''] ''dark''"

definition url_session :: workspace where
  "url_session = session [text_view ''notes.txt'' ''see http://x''] ''dark''"

section \<open>Clipping and the special values\<close>

lemma clip1_unit_cases:
  "clip1 x (Fin 0) (Fin 1) = NaN \<or> in_unit (clip1 x (Fin 0) (Fin 1))"
  by (cases x) (auto simp: clip1_def np_maximum_def np_minimum_def in_unit_def)

lemma clip1_Fin: "clip1 (Fin r) (Fin 0) (Fin 1) = Fin (max 0 (min 1 r))"
  by (auto simp: clip1_def np_maximum_def np_minimum_def)

lemma clip1_NaN_iff: "clip1 x (Fin 0) (Fin 1) = NaN \<longleftrightarrow> x = NaN"
  by (cases x) (auto simp: clip1_def np_maximum_def np_minimum_def)

lemma clip1_mono:
  "fl_le x y \<Longrightarrow> fl_le (clip1 x (Fin 0) (Fin 1)) (clip1 y (Fin 0) (Fin 1))"
  by (cases x; cases y) (auto simp: clip1_def np_maximum_def np_minimum_def)

lemma overflow_threshold_pos: "0 < overflow_threshold"
proof -
  have "(2::real) ^ 970 < 2 ^ 1024" by (rule power_strict_increasing) simp_all
  then show ?thesis by (simp add: overflow_threshold_def)
qed

lemma overflow_threshold_large: "1000000 < overflow_threshold"
proof -
  have "(2::real) ^ 970 * 2 \<le> 2 ^ 1024"
    using power_increasing [of 971 1024 "2::real"] by simp
  moreover have "(2::real) ^ 20 \<le> 2 ^ 970" by (rule power_increasing) simp_all
  ultimately show ?thesis by (simp add: overflow_threshold_def)
qed

text \<open>No overflow on small values; this is what evaluates the examples.\<close>

lemma fl_round_small: "\<bar>x\<bar> \<le> 1000000 \<Longrightarrow> fl_round x = Fin x"
  using overflow_threshold_large by (auto simp: fl_round_def)

lemma fl_round_not_NaN: "fl_round x \<noteq> NaN"
  by (simp add: fl_round_def)

lemma fl_round_mono: "x \<le> y \<Longrightarrow> fl_le (fl_round x) (fl_round y)"
  using overflow_threshold_pos by (auto simp: fl_round_def)

lemma fl_round_bounds: "fl_le NInf (fl_round x)" "fl_le (fl_round x) PInf"
  by (auto simp: fl_round_def)

lemma fl_round_finite: "is_finite (fl_round x) \<Longrightarrow> fl_round x = Fin x"
  by (auto simp: fl_round_def split: if_splits)

lemma fl_round_pos: "0 < x \<Longrightarrow> \<not> is_finite (fl_round x) \<Longrightarrow> fl_round x = PInf"
  using overflow_threshold_pos by (auto simp: fl_round_def split: if_splits)

lemma fl_sub_mono_left: "is_finite c \<Longrightarrow> fl_le x y \<Longrightarrow> fl_le (fl_sub x c) (fl_sub y c)"
  by (cases x; cases y; cases c) (auto simp: fl_sub_def fl_round_mono fl_round_bounds)

lemma fl_sub_anti_right: "is_finite c \<Longrightarrow> fl_le x y \<Longrightarrow> fl_le (fl_sub c y) (fl_sub c x)"
  by (cases x; cases y; cases c) (auto simp: fl_sub_def fl_round_mono fl_round_bounds)

lemma fl_div_mono_pos: "0 < d \<Longrightarrow> fl_le x y \<Longrightarrow> fl_le (fl_div x (Fin d)) (fl_div y (Fin d))"
  by (cases x; cases y) (auto simp: divide_right_mono fl_round_mono fl_round_bounds)

text \<open>A finite difference has finite operands and is the exact difference.\<close>

lemma fl_sub_finite_args: "is_finite (fl_sub s c) \<Longrightarrow> is_finite s \<and> is_finite c"
  by (cases c; cases s) (auto simp: fl_sub_def)

lemma fl_sub_pos:
  "fl_lt c s \<Longrightarrow> is_finite (fl_sub s c) \<Longrightarrow> \<exists>d. 0 < d \<and> fl_sub s c = Fin d"
  by (cases c; cases s) (auto simp: fl_sub_def dest: fl_round_finite)

lemma fl_sub_inf: "fl_lt c s \<Longrightarrow> \<not> is_finite (fl_sub s c) \<Longrightarrow> fl_sub s c = PInf"
  by (cases c; cases s) (auto simp: fl_sub_def intro: fl_round_pos)

lemma fl_div_PInf: "fl_div x PInf = NaN \<or> fl_div x PInf = Fin 0"
  by (cases x) auto

lemma calculate_shale_volume_eq:
  "map_of (curves w) n = Some gr \<Longrightarrow>
   calculate_shale_volume w n c s = (Some (map (spec_shale_volume c s) gr), w)"
  by (simp add: calculate_shale_volume_def spec_shale_volume_def arr_div_scalar_def
      arr_sub_scalar_def np_clip_def)

lemma calculate_porosity_eq:
  "map_of (curves w) n = Some rhob \<Longrightarrow>
   calculate_porosity w n f m = (Some (map (spec_porosity f m) rhob), w)"
  by (simp add: calculate_porosity_def spec_porosity_def arr_div_scalar_def
      scalar_sub_arr_def np_clip_def)

lemma fl_sub_finite_ne:
  "c \<noteq> s \<Longrightarrow> is_finite (fl_sub s c) \<Longrightarrow> \<exists>d. d \<noteq> 0 \<and> fl_sub s c = Fin d"
  by (cases c; cases s) (auto simp: fl_sub_def dest: fl_round_finite)

lemma fl_div_Fin_NaN: "d \<noteq> 0 \<Longrightarrow> fl_div x (Fin d) = NaN \<longleftrightarrow> x = NaN"
  by (cases x) (auto simp: fl_round_not_NaN)

lemma fl_sub_NaN_left: "is_finite c \<Longrightarrow> fl_sub x c = NaN \<longleftrightarrow> x = NaN"
  by (cases x; cases c) (auto simp: fl_sub_def fl_round_not_NaN)

lemma fl_sub_NaN_right: "is_finite c \<Longrightarrow> fl_sub c x = NaN \<longleftrightarrow> x = NaN"
  by (cases x; cases c) (auto simp: fl_sub_def fl_round_not_NaN)

lemma spec_shale_volume_unit:
  assumes "c \<noteq> s" "is_finite (fl_sub s c)" "g \<noteq> NaN"
  shows "in_unit (spec_shale_volume c s g)"
proof -
  obtain d where d: "d \<noteq> 0" "fl_sub s c = Fin d"
    using fl_sub_finite_ne [OF assms(1,2)] by blast
  have "is_finite c" using fl_sub_finite_args [OF assms(2)] by simp
  then have "fl_div (fl_sub g c) (Fin d) \<noteq> NaN"
    using assms(3) d(1) by (simp add: fl_div_Fin_NaN fl_sub_NaN_left)
  then have "spec_shale_volume c s g \<noteq> NaN"
    by (simp add: spec_shale_volume_def d(2) clip1_NaN_iff)
  then show ?thesis
    using clip1_unit_cases [of "fl_div (fl_sub g c) (fl_sub s c)"]
    by (simp add: spec_shale_volume_def)
qed

lemma spec_porosity_unit:
  assumes "f \<noteq> m" "is_finite (fl_sub m f)" "r \<noteq> NaN"
  shows "in_unit (spec_porosity f m r)"
proof -
  obtain d where d: "d \<noteq> 0" "fl_sub m f = Fin d"
    using fl_sub_finite_ne [OF assms(1,2)] by blast
  have "is_finite m" using fl_sub_finite_args [OF assms(2)] by simp
  then have "fl_div (fl_sub m r) (Fin d) \<noteq> NaN"
    using assms(3) d(1) by (simp add: fl_div_Fin_NaN fl_sub_NaN_right)
  then have "spec_porosity f m r \<noteq> NaN"
    by (simp add: spec_porosity_def d(2) clip1_NaN_iff)
  then show ?thesis
    using clip1_unit_cases [of "fl_div (fl_sub m r) (fl_sub m f)"]
    by (simp add: spec_porosity_def)
qed


section \<open>Petrophysical derivation\<close>

text \<open>
  C1, as amended. For every well whose curve mapping contains the named GR curve,
  \<^verbatim>\<open>calculate_shale_volume\<close> returns the element-wise array
  \<^verbatim>\<open>clip((GR - gr_clean) / (gr_shale - gr_clean), 0, 1)\<close>, and for every well containing
  the named density curve \<^verbatim>\<open>calculate_porosity\<close> returns
  \<^verbatim>\<open>clip((matrix_density - RHOB) / (matrix_density - fluid_density), 0, 1)\<close>, with
  defaults \<^verbatim>\<open>matrix_density = 2.65\<close> and \<^verbatim>\<open>fluid_density = 1.0\<close>. Every element of either
  result is NaN or lies in \<open>[0, 1]\<close>; it lies in \<open>[0, 1]\<close> whenever no sample is NaN,
  the two constants are different and their difference is finite, that is both are
  finite and the subtraction does not overflow. Samples \<open>[30, 90, 150]\<close> with
  \<^verbatim>\<open>gr_clean = 30\<close> and \<^verbatim>\<open>gr_shale = 150\<close> give \<open>[0.0, 0.5, 1.0]\<close>.
\<close>

theorem derivations_elementwise:
  "(map_of (curves w) gr_curve = Some gr \<longrightarrow>
      (\<exists>vsh. fst (calculate_shale_volume w gr_curve gr_clean gr_shale) = Some vsh
         \<and> vsh = map (spec_shale_volume gr_clean gr_shale) gr
         \<and> (\<forall>v \<in> set vsh. v = NaN \<or> in_unit v)
         \<and> (gr_clean \<noteq> gr_shale \<and> is_finite (fl_sub gr_shale gr_clean) \<and> NaN \<notin> set gr
              \<longrightarrow> (\<forall>v \<in> set vsh. in_unit v))))
   \<and> (map_of (curves w) density_curve = Some rhob \<longrightarrow>
      (\<exists>phi. fst (calculate_porosity w density_curve fluid_density matrix_density) = Some phi
         \<and> phi = map (spec_porosity fluid_density matrix_density) rhob
         \<and> (\<forall>v \<in> set phi. v = NaN \<or> in_unit v)
         \<and> (fluid_density \<noteq> matrix_density
               \<and> is_finite (fl_sub matrix_density fluid_density) \<and> NaN \<notin> set rhob
              \<longrightarrow> (\<forall>v \<in> set phi. in_unit v))))
   \<and> calculate_porosity_default w = calculate_porosity w ''RHOB'' (Fin 1.0) (Fin 2.65)
   \<and> fst (calculate_shale_volume example_well ''GR'' (Fin 30) (Fin 150))
       = Some [Fin 0.0, Fin 0.5, Fin 1.0]"
proof (intro conjI impI)
  assume h: "map_of (curves w) gr_curve = Some gr"
  have "\<forall>v \<in> set (map (spec_shale_volume gr_clean gr_shale) gr). v = NaN \<or> in_unit v"
    using clip1_unit_cases by (auto simp: spec_shale_volume_def)
  moreover have "gr_clean \<noteq> gr_shale \<and> is_finite (fl_sub gr_shale gr_clean) \<and> NaN \<notin> set gr
      \<longrightarrow> (\<forall>v \<in> set (map (spec_shale_volume gr_clean gr_shale) gr). in_unit v)"
    by (auto intro!: spec_shale_volume_unit)
  ultimately show "\<exists>vsh. fst (calculate_shale_volume w gr_curve gr_clean gr_shale) = Some vsh
         \<and> vsh = map (spec_shale_volume gr_clean gr_shale) gr
         \<and> (\<forall>v \<in> set vsh. v = NaN \<or> in_unit v)
         \<and> (gr_clean \<noteq> gr_shale \<and> is_finite (fl_sub gr_shale gr_clean) \<and> NaN \<notin> set gr
              \<longrightarrow> (\<forall>v \<in> set vsh. in_unit v))"
    by (simp add: calculate_shale_volume_eq [OF h])
next
  assume h: "map_of (curves w) density_curve = Some rhob"
  have "\<forall>v \<in> set (map (spec_porosity fluid_density matrix_density) rhob). v = NaN \<or> in_unit v"
    using clip1_unit_cases by (auto simp: spec_porosity_def)
  moreover have "fluid_density \<noteq> matrix_density
               \<and> is_finite (fl_sub matrix_density fluid_density) \<and> NaN \<notin> set rhob
      \<longrightarrow> (\<forall>v \<in> set (map (spec_porosity fluid_density matrix_density) rhob). in_unit v)"
    by (auto intro!: spec_porosity_unit)
  ultimately show "\<exists>phi. fst (calculate_porosity w density_curve fluid_density matrix_density) = Some phi
         \<and> phi = map (spec_porosity fluid_density matrix_density) rhob
         \<and> (\<forall>v \<in> set phi. v = NaN \<or> in_unit v)
         \<and> (fluid_density \<noteq> matrix_density
               \<and> is_finite (fl_sub matrix_density fluid_density) \<and> NaN \<notin> set rhob
              \<longrightarrow> (\<forall>v \<in> set phi. in_unit v))"
    by (simp add: calculate_porosity_eq [OF h])
next
  show "calculate_porosity_default w = calculate_porosity w ''RHOB'' (Fin 1.0) (Fin 2.65)"
    by (simp add: calculate_porosity_default_def)
next
  show "fst (calculate_shale_volume example_well ''GR'' (Fin 30) (Fin 150))
       = Some [Fin 0.0, Fin 0.5, Fin 1.0]"
    by (simp add: calculate_shale_volume_def example_well_def loaded_well_def WellLogData_init_def
        arr_div_scalar_def arr_sub_scalar_def np_clip_def clip1_def np_maximum_def
        np_minimum_def fl_sub_def fl_round_small)
qed


text \<open>
  The theorem at the well with binary-fraction samples: both curves present, the
  constants different with a finite difference, no NaN.
\<close>

theorem derivations_elementwise_witness:
  "map_of (curves dyadic_well) ''GR'' = Some [Fin 30, Fin 90, Fin 150]
   \<and> Fin 30 \<noteq> Fin 150 \<and> is_finite (fl_sub (Fin 150) (Fin 30))
   \<and> NaN \<notin> set [Fin 30, Fin 90, Fin 150]
   \<and> fst (calculate_shale_volume dyadic_well ''GR'' (Fin 30) (Fin 150))
     = Some [Fin 0, Fin (1/2), Fin 1]
   \<and> map_of (curves dyadic_well) ''RHOB'' = Some [Fin 2.5, Fin 1.75, Fin 1.0]
   \<and> Fin 1 \<noteq> Fin 2.5 \<and> is_finite (fl_sub (Fin 2.5) (Fin 1))
   \<and> NaN \<notin> set [Fin 2.5, Fin 1.75, Fin 1.0]
   \<and> fst (calculate_porosity dyadic_well ''RHOB'' (Fin 1) (Fin 2.5))
     = Some [Fin 0, Fin (1/2), Fin 1]
   \<and> list_all in_unit [Fin 0, Fin (1/2), Fin 1]"
  using derivations_elementwise [of dyadic_well "''GR''" "[Fin 30, Fin 90, Fin 150]"
      "Fin 30" "Fin 150" "''RHOB''" "[Fin 2.5, Fin 1.75, Fin 1.0]" "Fin 1" "Fin 2.5"]
  by (simp add: dyadic_well_def loaded_well_def WellLogData_init_def spec_shale_volume_def
      spec_porosity_def clip1_def np_maximum_def np_minimum_def fl_sub_def in_unit_def
      fl_round_small)


text \<open>
  C1 as first stated fails: a null sample is NaN, the result there is NaN, and NaN
  is outside \<open>[0, 1]\<close>.
\<close>

theorem unit_interval_counterexample:
  "map_of (curves null_sample_well) ''GR'' = Some [NaN]
   \<and> fst (calculate_shale_volume null_sample_well ''GR'' (Fin 30) (Fin 150)) = Some [NaN]
   \<and> map_of (curves null_sample_well) ''RHOB'' = Some [NaN]
   \<and> fst (calculate_porosity null_sample_well ''RHOB'' (Fin 1.0) (Fin 2.65)) = Some [NaN]
   \<and> \<not> in_unit NaN"
  by (simp add: calculate_shale_volume_def calculate_porosity_def null_sample_well_def
      loaded_well_def WellLogData_init_def arr_div_scalar_def arr_sub_scalar_def scalar_sub_arr_def
      np_clip_def clip1_def np_maximum_def np_minimum_def fl_sub_def in_unit_def)

subsection \<open>Monotonicity\<close>

lemma spec_shale_volume_mono:
  assumes "fl_lt c s" "is_finite (fl_sub s c)" "fl_le g1 g2"
  shows "fl_le (spec_shale_volume c s g1) (spec_shale_volume c s g2)"
proof -
  obtain d where d: "0 < d" "fl_sub s c = Fin d"
    using fl_sub_pos [OF assms(1,2)] by blast
  have "is_finite c" using fl_sub_finite_args [OF assms(2)] by simp
  then have "fl_le (fl_sub g1 c) (fl_sub g2 c)"
    using assms(3) by (rule fl_sub_mono_left)
  then have "fl_le (fl_div (fl_sub g1 c) (Fin d)) (fl_div (fl_sub g2 c) (Fin d))"
    using d(1) by (rule fl_div_mono_pos [rotated])
  then show ?thesis
    unfolding spec_shale_volume_def d(2) by (rule clip1_mono)
qed

lemma spec_porosity_anti:
  assumes "fl_lt f m" "is_finite (fl_sub m f)" "fl_le r1 r2"
  shows "fl_le (spec_porosity f m r2) (spec_porosity f m r1)"
proof -
  obtain d where d: "0 < d" "fl_sub m f = Fin d"
    using fl_sub_pos [OF assms(1,2)] by blast
  have "is_finite m" using fl_sub_finite_args [OF assms(2)] by simp
  then have "fl_le (fl_sub m r2) (fl_sub m r1)"
    using assms(3) by (rule fl_sub_anti_right)
  then have "fl_le (fl_div (fl_sub m r2) (Fin d)) (fl_div (fl_sub m r1) (Fin d))"
    using d(1) by (rule fl_div_mono_pos [rotated])
  then show ?thesis
    unfolding spec_porosity_def d(2) by (rule clip1_mono)
qed

lemma clip1_zero: "clip1 (Fin 0) (Fin 0) (Fin 1) = Fin 0"
  by (simp add: clip1_Fin)

text \<open>
  When the difference of the constants is infinite, every result is NaN or zero.
\<close>

lemma spec_shale_volume_inf:
  assumes "fl_lt c s" "\<not> is_finite (fl_sub s c)"
  shows "spec_shale_volume c s g = NaN \<or> spec_shale_volume c s g = Fin 0"
  using fl_div_PInf [of "fl_sub g c"]
  by (auto simp: spec_shale_volume_def fl_sub_inf [OF assms] clip1_NaN_iff clip1_zero)

lemma spec_porosity_inf:
  assumes "fl_lt f m" "\<not> is_finite (fl_sub m f)"
  shows "spec_porosity f m r = NaN \<or> spec_porosity f m r = Fin 0"
  using fl_div_PInf [of "fl_sub m r"]
  by (auto simp: spec_porosity_def fl_sub_inf [OF assms] clip1_NaN_iff clip1_zero)

text \<open>
  C5, as amended. Take two samples of the GR curve with \<open>g1 \<le> g2\<close> and constants
  with \<^verbatim>\<open>gr_shale > gr_clean\<close>. When \<^verbatim>\<open>gr_shale - gr_clean\<close> is finite, that is when
  both constants are finite and the subtraction does not overflow, as with the
  defaults 30 and 150, \<open>shale_volume(g1) \<le> shale_volume(g2)\<close>. When the difference
  is infinite a result can be NaN, and whenever neither result is NaN the order still
  holds. Likewise for two samples \<open>r1 \<le> r2\<close> of the density curve and
  \<^verbatim>\<open>matrix_density > fluid_density\<close>: \<open>porosity(r1) \<ge> porosity(r2)\<close> when
  \<^verbatim>\<open>matrix_density - fluid_density\<close> is finite, as with the defaults 2.65 and 1.0, and
  for any constants unless a result is NaN.
\<close>

theorem derivations_monotone:
  "(map_of (curves w) gr_curve = Some gr
      \<and> fst (calculate_shale_volume w gr_curve gr_clean gr_shale) = Some vsh
      \<and> i < length gr \<and> j < length gr
      \<and> fl_le (gr ! i) (gr ! j) \<and> fl_lt gr_clean gr_shale
    \<longrightarrow> (vsh ! i = NaN \<or> vsh ! j = NaN \<or> fl_le (vsh ! i) (vsh ! j))
        \<and> (is_finite (fl_sub gr_shale gr_clean) \<longrightarrow> fl_le (vsh ! i) (vsh ! j)))
   \<and> (map_of (curves w) density_curve = Some rhob
      \<and> fst (calculate_porosity w density_curve fluid_density matrix_density) = Some phi
      \<and> k < length rhob \<and> l < length rhob
      \<and> fl_le (rhob ! k) (rhob ! l) \<and> fl_lt fluid_density matrix_density
    \<longrightarrow> (phi ! k = NaN \<or> phi ! l = NaN \<or> fl_le (phi ! l) (phi ! k))
        \<and> (is_finite (fl_sub matrix_density fluid_density)
             \<longrightarrow> fl_le (phi ! l) (phi ! k)))
   \<and> is_finite (fl_sub (Fin 150.0) (Fin 30.0))
   \<and> is_finite (fl_sub (Fin 2.65) (Fin 1.0))"
proof (intro conjI impI; (elim conjE)?)
  assume h: "map_of (curves w) gr_curve = Some gr"
    "fst (calculate_shale_volume w gr_curve gr_clean gr_shale) = Some vsh"
    "i < length gr" "j < length gr" "fl_le (gr ! i) (gr ! j)" "fl_lt gr_clean gr_shale"
  have vsh: "vsh ! i = spec_shale_volume gr_clean gr_shale (gr ! i)"
    "vsh ! j = spec_shale_volume gr_clean gr_shale (gr ! j)"
    using h(2-4) by (auto simp: calculate_shale_volume_eq [OF h(1)])
  show "vsh ! i = NaN \<or> vsh ! j = NaN \<or> fl_le (vsh ! i) (vsh ! j)"
  proof (cases "is_finite (fl_sub gr_shale gr_clean)")
    case True
    then show ?thesis using spec_shale_volume_mono [OF h(6) True h(5)] vsh by simp
  next
    case False
    show ?thesis
      using spec_shale_volume_inf [OF h(6) False, of "gr ! i"]
        spec_shale_volume_inf [OF h(6) False, of "gr ! j"] vsh
      by auto
  qed
  show "fl_le (vsh ! i) (vsh ! j)" if "is_finite (fl_sub gr_shale gr_clean)"
    using spec_shale_volume_mono [OF h(6) that h(5)] vsh by simp
next
  assume h: "map_of (curves w) density_curve = Some rhob"
    "fst (calculate_porosity w density_curve fluid_density matrix_density) = Some phi"
    "k < length rhob" "l < length rhob" "fl_le (rhob ! k) (rhob ! l)"
    "fl_lt fluid_density matrix_density"
  have phi: "phi ! k = spec_porosity fluid_density matrix_density (rhob ! k)"
    "phi ! l = spec_porosity fluid_density matrix_density (rhob ! l)"
    using h(2-4) by (auto simp: calculate_porosity_eq [OF h(1)])
  show "phi ! k = NaN \<or> phi ! l = NaN \<or> fl_le (phi ! l) (phi ! k)"
  proof (cases "is_finite (fl_sub matrix_density fluid_density)")
    case True
    then show ?thesis using spec_porosity_anti [OF h(6) True h(5)] phi by simp
  next
    case False
    show ?thesis
      using spec_porosity_inf [OF h(6) False, of "rhob ! k"]
        spec_porosity_inf [OF h(6) False, of "rhob ! l"] phi
      by auto
  qed
  show "fl_le (phi ! l) (phi ! k)" if "is_finite (fl_sub matrix_density fluid_density)"
    using spec_porosity_anti [OF h(6) that h(5)] phi by simp
next
  show "is_finite (fl_sub (Fin 150.0) (Fin 30.0))"
    by (simp add: fl_sub_def fl_round_small)
  show "is_finite (fl_sub (Fin 2.65) (Fin 1.0))"
    by (simp add: fl_sub_def fl_round_small)
qed

text \<open>
  The theorem at the well with binary-fraction samples, for the first two samples of
  each curve.
\<close>

theorem derivations_monotone_witness:
  "map_of (curves dyadic_well) ''GR'' = Some [Fin 30, Fin 90, Fin 150]
   \<and> fl_le (Fin 30) (Fin 90) \<and> fl_lt (Fin 30) (Fin 150)
   \<and> is_finite (fl_sub (Fin 150) (Fin 30))
   \<and> fst (calculate_shale_volume dyadic_well ''GR'' (Fin 30) (Fin 150))
       = Some [Fin 0, Fin (1/2), Fin 1]
   \<and> fl_le (Fin 0) (Fin (1/2))
   \<and> map_of (curves dyadic_well) ''RHOB'' = Some [Fin 2.5, Fin 1.75, Fin 1.0]
   \<and> fl_le (Fin 1.75) (Fin 2.5) \<and> fl_lt (Fin 1.0) (Fin 2.5)
   \<and> is_finite (fl_sub (Fin 2.5) (Fin 1.0))
   \<and> fst (calculate_porosity dyadic_well ''RHOB'' (Fin 1.0) (Fin 2.5))
       = Some [Fin 0, Fin (1/2), Fin 1]
   \<and> fl_le (Fin 0) (Fin (1/2))"
  using derivations_monotone [of dyadic_well "''GR''" "[Fin 30, Fin 90, Fin 150]"
      "Fin 30" "Fin 150" "[Fin 0, Fin (1/2), Fin 1]" 0 1
      "''RHOB''" "[Fin 2.5, Fin 1.75, Fin 1.0]" "Fin 1.0" "Fin 2.5"
      "[Fin 0, Fin (1/2), Fin 1]" 1 0]
  by (simp add: dyadic_well_def loaded_well_def WellLogData_init_def calculate_shale_volume_def
      calculate_porosity_def arr_div_scalar_def arr_sub_scalar_def scalar_sub_arr_def
      np_clip_def clip1_def np_maximum_def np_minimum_def fl_sub_def fl_round_small)

text \<open>
  C5 as first stated fails for finite constants whose difference overflows. With
  \<^verbatim>\<open>gr_clean = -2^1023\<close> and \<^verbatim>\<open>gr_shale = 2^1023\<close> the denominator is infinite; the
  sample \<open>0\<close> gives \<open>0\<close>, and the larger sample \<open>2^1023\<close> has an infinite numerator and
  gives NaN, which compares with nothing. The same constants as densities give NaN
  for the sample \<open>-2^1023\<close> and \<open>0\<close> for the larger sample \<open>0\<close>.
\<close>

theorem monotone_counterexample:
  "fl_lt (Fin (- (2 ^ 1023))) (Fin (2 ^ 1023))
   \<and> map_of (curves overflow_well) ''GR'' = Some [Fin 0, Fin (2 ^ 1023)]
   \<and> fl_le (Fin 0) (Fin (2 ^ 1023))
   \<and> fst (calculate_shale_volume overflow_well ''GR'' (Fin (- (2 ^ 1023))) (Fin (2 ^ 1023)))
       = Some [Fin 0, NaN]
   \<and> \<not> fl_le (Fin 0) NaN
   \<and> map_of (curves overflow_well) ''RHOB'' = Some [Fin (- (2 ^ 1023)), Fin 0]
   \<and> fl_le (Fin (- (2 ^ 1023))) (Fin 0)
   \<and> fst (calculate_porosity overflow_well ''RHOB'' (Fin (- (2 ^ 1023))) (Fin (2 ^ 1023)))
       = Some [NaN, Fin 0]"
  by (simp add: overflow_well_def loaded_well_def WellLogData_init_def calculate_shale_volume_def
      calculate_porosity_def arr_div_scalar_def arr_sub_scalar_def scalar_sub_arr_def
      np_clip_def clip1_def np_maximum_def np_minimum_def fl_sub_def fl_round_def
      overflow_threshold_def)

subsection \<open>Missing curves and purity\<close>

lemma has_key_names: "has_key (curves w) k \<longleftrightarrow> k \<in> set (get_curve_names w)"
  by (simp add: has_key_def get_curve_names_def map_of_eq_None_iff)

text \<open>
  C7. \<^verbatim>\<open>calculate_shale_volume\<close> returns \<^verbatim>\<open>None\<close> if and only if the named GR curve
  is absent from the well's curve mapping, and \<^verbatim>\<open>calculate_porosity\<close> returns \<^verbatim>\<open>None\<close>
  if and only if the named density curve is absent. On both paths the well comes back
  unchanged: curves, units and descriptions. The result is stored only by the caller:
  the widget leaves the well alone when the curve is missing, and otherwise stores the
  result under \<^verbatim>\<open>VSH\<close> or \<^verbatim>\<open>PHI\<close>.
\<close>

theorem derivations_none_iff_absent:
  "(fst (calculate_shale_volume w gr_curve gr_clean gr_shale) = None
      \<longleftrightarrow> gr_curve \<notin> set (get_curve_names w))
   \<and> snd (calculate_shale_volume w gr_curve gr_clean gr_shale) = w
   \<and> (fst (calculate_porosity w density_curve fluid_density matrix_density) = None
      \<longleftrightarrow> density_curve \<notin> set (get_curve_names w))
   \<and> snd (calculate_porosity w density_curve fluid_density matrix_density) = w
   \<and> (current_well self = Some w \<and> ''GR'' \<notin> set (get_curve_names w)
      \<longrightarrow> current_well (snd (widget_calculate_shale_volume self)) = Some w)
   \<and> (current_well self = Some w \<and> ''RHOB'' \<notin> set (get_curve_names w)
      \<longrightarrow> current_well (snd (widget_calculate_porosity self)) = Some w)
   \<and> (current_well self = Some w \<and> fst (calculate_shale_volume_default w) = Some vsh
      \<longrightarrow> current_well (snd (widget_calculate_shale_volume self))
            = Some (store_curve w ''VSH'' vsh ''fraction'' ''Shale Volume''))
   \<and> (current_well self = Some w \<and> fst (calculate_porosity_default w) = Some phi
      \<longrightarrow> current_well (snd (widget_calculate_porosity self))
            = Some (store_curve w ''PHI'' phi ''fraction'' ''Porosity''))"
proof -
  have keys: "\<And>k. map_of (curves w) k = None \<longleftrightarrow> k \<notin> set (get_curve_names w)"
    by (simp add: get_curve_names_def map_of_eq_None_iff)
  have a: "fst (calculate_shale_volume w gr_curve gr_clean gr_shale) = None
      \<longleftrightarrow> gr_curve \<notin> set (get_curve_names w)"
    unfolding keys [symmetric]
    by (simp add: calculate_shale_volume_def Let_def split: option.splits)
  have b: "snd (calculate_shale_volume w gr_curve gr_clean gr_shale) = w"
    by (simp add: calculate_shale_volume_def Let_def split: option.splits)
  have c: "fst (calculate_porosity w density_curve fluid_density matrix_density) = None
      \<longleftrightarrow> density_curve \<notin> set (get_curve_names w)"
    unfolding keys [symmetric]
    by (simp add: calculate_porosity_def Let_def split: option.splits)
  have d: "snd (calculate_porosity w density_curve fluid_density matrix_density) = w"
    by (simp add: calculate_porosity_def Let_def split: option.splits)
  have e: "current_well (snd (widget_calculate_shale_volume self)) = Some w"
    if "current_well self = Some w" "''GR'' \<notin> set (get_curve_names w)"
    using that unfolding keys [symmetric]
    by (simp add: widget_calculate_shale_volume_def calculate_shale_volume_default_def
        calculate_shale_volume_def)
  have f: "current_well (snd (widget_calculate_porosity self)) = Some w"
    if "current_well self = Some w" "''RHOB'' \<notin> set (get_curve_names w)"
    using that unfolding keys [symmetric]
    by (simp add: widget_calculate_porosity_def calculate_porosity_default_def
        calculate_porosity_def)
  have g: "current_well (snd (widget_calculate_shale_volume self))
            = Some (store_curve w ''VSH'' vsh ''fraction'' ''Shale Volume'')"
    if "current_well self = Some w" "fst (calculate_shale_volume_default w) = Some vsh"
    using that
    by (auto simp: widget_calculate_shale_volume_def calculate_shale_volume_default_def
        calculate_shale_volume_def Let_def split: option.splits sum.splits)
  have h: "current_well (snd (widget_calculate_porosity self))
            = Some (store_curve w ''PHI'' phi ''fraction'' ''Porosity'')"
    if "current_well self = Some w" "fst (calculate_porosity_default w) = Some phi"
    using that
    by (auto simp: widget_calculate_porosity_def calculate_porosity_default_def
        calculate_porosity_def Let_def split: option.splits sum.splits)
  show ?thesis using a b c d e f g h by blast
qed

text \<open>The theorem at a well with both curves and at a well with neither.\<close>

theorem derivations_none_iff_absent_witness:
  "fst (calculate_shale_volume_default example_well) = Some [Fin 0, Fin (1/2), Fin 1]
   \<and> fst (calculate_porosity_default example_well) = Some [Fin 0, Fin (1/2), Fin 1]
   \<and> current_well (snd (widget_calculate_shale_volume example_widget))
       = Some (store_curve example_well ''VSH'' [Fin 0, Fin (1/2), Fin 1]
                 ''fraction'' ''Shale Volume'')
   \<and> current_well (snd (widget_calculate_porosity example_widget))
       = Some (store_curve example_well ''PHI'' [Fin 0, Fin (1/2), Fin 1]
                 ''fraction'' ''Porosity'')
   \<and> ''GR'' \<notin> set (get_curve_names bare_well) \<and> ''RHOB'' \<notin> set (get_curve_names bare_well)
   \<and> fst (calculate_shale_volume_default bare_well) = None
   \<and> fst (calculate_porosity_default bare_well) = None
   \<and> current_well (snd (widget_calculate_shale_volume bare_widget)) = Some bare_well
   \<and> current_well (snd (widget_calculate_porosity bare_widget)) = Some bare_well"
proof -
  have ex: "fst (calculate_shale_volume_default example_well) = Some [Fin 0, Fin (1/2), Fin 1]"
    "fst (calculate_porosity_default example_well) = Some [Fin 0, Fin (1/2), Fin 1]"
    by (simp_all add: calculate_shale_volume_default_def calculate_porosity_default_def
        example_well_def loaded_well_def WellLogData_init_def calculate_shale_volume_def
        calculate_porosity_def arr_div_scalar_def arr_sub_scalar_def scalar_sub_arr_def
        np_clip_def clip1_def np_maximum_def np_minimum_def fl_sub_def fl_round_small)
  have cw: "current_well example_widget = Some example_well"
    "current_well bare_widget = Some bare_well"
    by (simp_all add: example_widget_def bare_widget_def)
  have absent: "''GR'' \<notin> set (get_curve_names bare_well)"
    "''RHOB'' \<notin> set (get_curve_names bare_well)"
    by (simp_all add: get_curve_names_def bare_well_def loaded_well_def)
  note present = derivations_none_iff_absent [of example_well "''GR''" "Fin 30" "Fin 150"
      "''RHOB''" "Fin 1" "Fin 2.65" example_widget
      "[Fin 0, Fin (1/2), Fin 1]" "[Fin 0, Fin (1/2), Fin 1]"]
  note missing = derivations_none_iff_absent [of bare_well "''GR''" "Fin 30" "Fin 150"
      "''RHOB''" "Fin 1" "Fin 2.65" bare_widget]
  show ?thesis
    using present missing ex cw absent
    by (simp add: calculate_shale_volume_default_def calculate_porosity_default_def)
qed

section \<open>Depth-curve resolution\<close>

lemma first_candidate_None:
  "first_candidate d cs = None \<longleftrightarrow> (\<forall>c \<in> set cs. \<not> has_key d c)"
  by (induction cs) auto

lemma first_candidate_Some:
  "first_candidate d cs = Some c \<longleftrightarrow>
     (\<exists>i < length cs. cs ! i = c \<and> has_key d c \<and> (\<forall>j < i. \<not> has_key d (cs ! j)))"
proof (induction cs)
  case Nil
  then show ?case by simp
next
  case (Cons a cs)
  show ?case
  proof (cases "has_key d a")
    case True
    have "(\<exists>i < length (a # cs). (a # cs) ! i = c \<and> has_key d c
             \<and> (\<forall>j < i. \<not> has_key d ((a # cs) ! j))) \<longleftrightarrow> a = c"
    proof
      assume "\<exists>i < length (a # cs). (a # cs) ! i = c \<and> has_key d c
             \<and> (\<forall>j < i. \<not> has_key d ((a # cs) ! j))"
      then obtain i where i: "(a # cs) ! i = c" "\<forall>j < i. \<not> has_key d ((a # cs) ! j)"
        by blast
      have "i = 0"
      proof (rule ccontr)
        assume "i \<noteq> 0"
        then have "\<not> has_key d ((a # cs) ! 0)" using i(2) by blast
        then show False using True by simp
      qed
      then show "a = c" using i(1) by simp
    next
      assume "a = c"
      then have "(a # cs) ! 0 = c \<and> has_key d c \<and> (\<forall>j < 0. \<not> has_key d ((a # cs) ! j))"
        using True by simp
      then show "\<exists>i < length (a # cs). (a # cs) ! i = c \<and> has_key d c
             \<and> (\<forall>j < i. \<not> has_key d ((a # cs) ! j))"
        by (intro exI [of _ 0]) simp
    qed
    then show ?thesis using True by simp
  next
    case False
    have "(\<exists>i < length (a # cs). (a # cs) ! i = c \<and> has_key d c
             \<and> (\<forall>j < i. \<not> has_key d ((a # cs) ! j)))
          \<longleftrightarrow> (\<exists>i < length cs. cs ! i = c \<and> has_key d c
             \<and> (\<forall>j < i. \<not> has_key d (cs ! j)))" (is "?L \<longleftrightarrow> ?R")
    proof
      assume ?L
      then obtain i where i: "i < length (a # cs)" "(a # cs) ! i = c" "has_key d c"
        "\<forall>j < i. \<not> has_key d ((a # cs) ! j)" by blast
      have "i \<noteq> 0" using i(2,3) False by (cases i) auto
      then obtain i' where i': "i = Suc i'" by (cases i) auto
      have "\<forall>j < i'. \<not> has_key d (cs ! j)"
      proof (intro allI impI)
        fix j assume "j < i'"
        then have "Suc j < i" using i' by simp
        then have "\<not> has_key d ((a # cs) ! Suc j)" using i(4) by blast
        then show "\<not> has_key d (cs ! j)" by simp
      qed
      then show ?R using i i' by auto
    next
      assume ?R
      then obtain i where i: "i < length cs" "cs ! i = c" "has_key d c"
        "\<forall>j < i. \<not> has_key d (cs ! j)" by blast
      have "\<forall>j < Suc i. \<not> has_key d ((a # cs) ! j)"
      proof (intro allI impI)
        fix j assume "j < Suc i"
        then show "\<not> has_key d ((a # cs) ! j)" using False i(4) by (cases j) auto
      qed
      then show ?L using i by (intro exI [of _ "Suc i"]) simp
    qed
    then show ?thesis using False Cons.IH by simp
  qed
qed

text \<open>
  C3. Depth-curve resolution returns the first mnemonic of the ordered candidate list
  \<^verbatim>\<open>DEPT\<close>, \<^verbatim>\<open>DEPTH\<close>, \<^verbatim>\<open>MD\<close>, \<^verbatim>\<open>TVD\<close> that is present in the well's curve set, and
  \<^verbatim>\<open>None\<close> when none of them is present; with all four present it returns \<^verbatim>\<open>DEPT\<close>.
\<close>

theorem find_depth_curve_first_present:
  "depth_candidates = [''DEPT'', ''DEPTH'', ''MD'', ''TVD'']
   \<and> (find_depth_curve w = Some c \<longleftrightarrow>
        (\<exists>i < length depth_candidates. depth_candidates ! i = c
           \<and> c \<in> set (get_curve_names w)
           \<and> (\<forall>j < i. depth_candidates ! j \<notin> set (get_curve_names w))))
   \<and> (find_depth_curve w = None \<longleftrightarrow>
        (\<forall>c \<in> set depth_candidates. c \<notin> set (get_curve_names w)))
   \<and> (set depth_candidates \<subseteq> set (get_curve_names w)
        \<longrightarrow> find_depth_curve w = Some ''DEPT'')"
proof (intro conjI)
  show "depth_candidates = [''DEPT'', ''DEPTH'', ''MD'', ''TVD'']"
    by (simp add: depth_candidates_def)
  show some: "find_depth_curve w = Some c \<longleftrightarrow>
        (\<exists>i < length depth_candidates. depth_candidates ! i = c
           \<and> c \<in> set (get_curve_names w)
           \<and> (\<forall>j < i. depth_candidates ! j \<notin> set (get_curve_names w)))"
    by (simp add: find_depth_curve_def first_candidate_Some has_key_names)
  show "find_depth_curve w = None \<longleftrightarrow>
        (\<forall>c \<in> set depth_candidates. c \<notin> set (get_curve_names w))"
    by (simp add: find_depth_curve_def first_candidate_None has_key_names)
  show "set depth_candidates \<subseteq> set (get_curve_names w)
        \<longrightarrow> find_depth_curve w = Some ''DEPT''"
    by (simp add: find_depth_curve_def depth_candidates_def has_key_names)
qed

text \<open>
  All four candidates present, in reverse order in the file: \<^verbatim>\<open>DEPT\<close> wins. With
  \<^verbatim>\<open>DEPTH\<close> and \<^verbatim>\<open>MD\<close> only, \<^verbatim>\<open>DEPTH\<close> wins; with none, the result is \<^verbatim>\<open>None\<close>.
\<close>

theorem find_depth_curve_first_present_witness:
  "set depth_candidates \<subseteq> set (get_curve_names all_depth_well)
   \<and> find_depth_curve all_depth_well = Some ''DEPT''
   \<and> find_depth_curve bare_well = Some ''DEPTH''
   \<and> find_depth_curve example_well = None"
proof -
  have sub: "set depth_candidates \<subseteq> set (get_curve_names all_depth_well)"
    by (simp add: all_depth_well_def loaded_well_def WellLogData_init_def get_curve_names_def
        depth_candidates_def)
  have "set depth_candidates \<subseteq> set (get_curve_names all_depth_well)
        \<longrightarrow> find_depth_curve all_depth_well = Some ''DEPT''"
    using find_depth_curve_first_present [of all_depth_well "''DEPT''"] by blast
  then have first: "find_depth_curve all_depth_well = Some ''DEPT''"
    using sub by blast
  have second: "find_depth_curve bare_well = Some ''DEPTH''"
    by (simp add: bare_well_def loaded_well_def WellLogData_init_def depth_candidates_def
        find_depth_curve_def has_key_def)
  have none: "find_depth_curve example_well = None"
    by (simp add: example_well_def loaded_well_def WellLogData_init_def depth_candidates_def
        find_depth_curve_def has_key_def)
  show ?thesis using sub first second none by blast
qed

section \<open>Track assignment\<close>

text \<open>
  C4. Track assignment is total on strings: every mnemonic gets an index of one of the
  five default tracks, a mnemonic that is not in the lookup table gets the gamma-ray
  track (index 1), and every table entry is returned as written; \<^verbatim>\<open>RHOB\<close> goes to the
  density track and \<^verbatim>\<open>NPHI\<close> to the neutron track.
\<close>

theorem get_track_for_curve_total:
  "get_track_for_curve curve_name < length default_tracks
   \<and> (curve_name \<notin> set (map fst curve_track_map) \<longrightarrow> get_track_for_curve curve_name = 1)
   \<and> track_name (default_tracks ! 1) = ''GR''
   \<and> (\<forall>(k, t) \<in> set curve_track_map. get_track_for_curve k = t)
   \<and> get_track_for_curve ''RHOB'' = 3 \<and> track_name (default_tracks ! 3) = ''Density''
   \<and> get_track_for_curve ''NPHI'' = 4 \<and> track_name (default_tracks ! 4) = ''Neutron''"
proof (intro conjI)
  have range: "\<forall>(k, t) \<in> set curve_track_map. t < 5"
    by (simp add: curve_track_map_def)
  show "get_track_for_curve curve_name < length default_tracks"
  proof (cases "map_of curve_track_map curve_name")
    case None
    then show ?thesis by (simp add: get_track_for_curve_def default_tracks_def)
  next
    case (Some t)
    then have "(curve_name, t) \<in> set curve_track_map" by (rule map_of_SomeD)
    then have "t < 5" using range by blast
    then show ?thesis using Some by (simp add: get_track_for_curve_def default_tracks_def)
  qed
  show "curve_name \<notin> set (map fst curve_track_map) \<longrightarrow> get_track_for_curve curve_name = 1"
    by (simp add: get_track_for_curve_def map_of_eq_None_iff [symmetric] del: map_of_eq_None_iff)
  show "\<forall>(k, t) \<in> set curve_track_map. get_track_for_curve k = t"
    by (simp add: curve_track_map_def get_track_for_curve_def)
qed (simp_all add: get_track_for_curve_def curve_track_map_def default_tracks_def Track_def)

text \<open>Two mnemonics outside the table, the empty string among them, and one inside.\<close>

theorem get_track_for_curve_total_witness:
  "''VSH'' \<notin> set (map fst curve_track_map) \<and> get_track_for_curve ''VSH'' = 1
   \<and> get_track_for_curve [] = 1
   \<and> (''ILD'', 2) \<in> set curve_track_map \<and> get_track_for_curve ''ILD'' = 2"
  using get_track_for_curve_total [of "''VSH''"] get_track_for_curve_total [of "[]"]
  by (simp add: curve_track_map_def get_track_for_curve_def)

section \<open>Section view: depth range\<close>

lemma fl_le_not_lt: "fl_le y x \<Longrightarrow> \<not> fl_lt x y"
  by (cases x; cases y) auto

text \<open>
  C2, as amended. For every prior depth range and every requested pair \<open>(min, max)\<close>, a
  depth-range edit (\<^verbatim>\<open>update_depth_range\<close>) whose values do not satisfy \<open>min < max\<close>,
  which includes every \<open>min \<ge> max\<close>, or whose text is no number, is rejected and leaves
  the canvas, and so the depth range, as it was; only an edit with \<open>min < max\<close> changes
  the depth range, and then to exactly \<open>(min, max)\<close>. The canvas method
  \<^verbatim>\<open>zoom_to_depth_range\<close> has no guard of its own: it sets the range to the pair it is
  given.
\<close>

theorem depth_range_edit_guarded:
  "(py_float (min_depth_edit self) = Some mn \<and> py_float (max_depth_edit self) = Some mx
      \<and> \<not> fl_lt mn mx
     \<longrightarrow> canvas (update_depth_range py_float self) = canvas self
         \<and> status_label (update_depth_range py_float self) = Invalid_depth_range)
   \<and> (fl_le mx mn \<longrightarrow> \<not> fl_lt mn mx)
   \<and> (py_float (min_depth_edit self) = None \<or> py_float (max_depth_edit self) = None
     \<longrightarrow> canvas (update_depth_range py_float self) = canvas self
         \<and> status_label (update_depth_range py_float self) = Invalid_depth_values)
   \<and> (py_float (min_depth_edit self) = Some mn \<and> py_float (max_depth_edit self) = Some mx
      \<and> fl_lt mn mx
     \<longrightarrow> canvas (update_depth_range py_float self) = (canvas self)\<lparr>depth_range := (mn, mx)\<rparr>
         \<and> depth_range (canvas (update_depth_range py_float self)) = (mn, mx))
   \<and> (canvas (update_depth_range py_float self) \<noteq> canvas self
     \<longrightarrow> (\<exists>lo hi. py_float (min_depth_edit self) = Some lo
            \<and> py_float (max_depth_edit self) = Some hi \<and> fl_lt lo hi
            \<and> depth_range (canvas (update_depth_range py_float self)) = (lo, hi)))
   \<and> depth_range (zoom_to_depth_range c mn mx) = (mn, mx)"
proof (intro conjI impI)
  show "\<not> fl_lt mn mx" if "fl_le mx mn"
    using that by (rule fl_le_not_lt)
  show "\<exists>lo hi. py_float (min_depth_edit self) = Some lo
            \<and> py_float (max_depth_edit self) = Some hi \<and> fl_lt lo hi
            \<and> depth_range (canvas (update_depth_range py_float self)) = (lo, hi)"
    if "canvas (update_depth_range py_float self) \<noteq> canvas self"
    using that
    by (auto simp: update_depth_range_def zoom_to_depth_range_def
        split: option.splits if_splits)
qed (auto simp: update_depth_range_def zoom_to_depth_range_def split: option.splits)

text \<open>
  The edit \<open>(500, 100)\<close> is rejected and the range stays \<open>(0, 1000)\<close>; the edit
  \<open>(100, 500)\<close> is applied; a text that is no number is rejected.
\<close>

theorem depth_range_edit_guarded_witness:
  "example_float ''500'' = Some (Fin 500) \<and> example_float ''100'' = Some (Fin 100)
   \<and> fl_le (Fin 100) (Fin 500)
   \<and> canvas (update_depth_range example_float (edit_widget ''500'' ''100''))
       = canvas (edit_widget ''500'' ''100'')
   \<and> depth_range (canvas (update_depth_range example_float (edit_widget ''500'' ''100'')))
       = (Fin 0, Fin 1000)
   \<and> depth_range (canvas (update_depth_range example_float (edit_widget ''100'' ''500'')))
       = (Fin 100, Fin 500)
   \<and> example_float ''abc'' = None
   \<and> canvas (update_depth_range example_float (edit_widget ''abc'' ''500''))
       = canvas (edit_widget ''abc'' ''500'')"
proof -
  have f: "example_float ''500'' = Some (Fin 500)" "example_float ''100'' = Some (Fin 100)"
    "example_float ''abc'' = None"
    by (simp_all add: example_float_def)
  have e: "min_depth_edit (edit_widget lo hi) = lo" "max_depth_edit (edit_widget lo hi) = hi"
    "depth_range (canvas (edit_widget lo hi)) = (Fin 0, Fin 1000)" for lo hi
    by (simp_all add: edit_widget_def WellSectionCanvas_init_def setup_display_def)
  note inv = depth_range_edit_guarded [of example_float "edit_widget ''500'' ''100''"
      "Fin 500" "Fin 100"]
  note ok = depth_range_edit_guarded [of example_float "edit_widget ''100'' ''500''"
      "Fin 100" "Fin 500"]
  note bad = depth_range_edit_guarded [of example_float "edit_widget ''abc'' ''500''"]
  have 1: "canvas (update_depth_range example_float (edit_widget ''500'' ''100''))
       = canvas (edit_widget ''500'' ''100'')"
    using inv f e by simp
  have 2: "depth_range (canvas (update_depth_range example_float (edit_widget ''100'' ''500'')))
       = (Fin 100, Fin 500)"
    using ok f e by simp
  have 3: "canvas (update_depth_range example_float (edit_widget ''abc'' ''500''))
       = canvas (edit_widget ''abc'' ''500'')"
    using bad f e by simp
  show ?thesis using 1 2 3 f e by simp
qed

text \<open>
  C2 as first stated fails for the canvas method: \<^verbatim>\<open>zoom_to_depth_range(500, 100)\<close> on
  the range \<open>(0, 1000)\<close> sets the range to \<open>(500, 100)\<close>.
\<close>

theorem zoom_unguarded_counterexample:
  "\<not> fl_lt (Fin 500) (Fin 100)
   \<and> depth_range WellSectionCanvas_init = (Fin 0, Fin 1000)
   \<and> depth_range (zoom_to_depth_range WellSectionCanvas_init (Fin 500) (Fin 100))
       = (Fin 500, Fin 100)"
  by (simp add: zoom_to_depth_range_def WellSectionCanvas_init_def setup_display_def)

section \<open>Loading into the collection\<close>

text \<open>
  C8. When reading the curve file fails, and more generally whenever
  \<^verbatim>\<open>load_from_las\<close> returns false, \<^verbatim>\<open>load_well\<close> returns \<^verbatim>\<open>None\<close> and the manager,
  with its wells mapping, is exactly as before; the half-filled well object is in
  neither component of the result. Only a successful load changes the mapping: it
  assigns the new well under its name, adding or overwriting that entry and no other.
\<close>

theorem load_well_failure_leaves_collection:
  "(lasio_read file_path = Inl e
      \<longrightarrow> load_well lasio_read path_stem self file_path = (None, self))
   \<and> (\<not> fst (load_from_las lasio_read path_stem (WellLogData_init ''Unknown Well'') file_path)
      \<longrightarrow> load_well lasio_read path_stem self file_path = (None, self))
   \<and> (load_from_las lasio_read path_stem (WellLogData_init ''Unknown Well'') file_path
        = (True, well)
      \<longrightarrow> load_well lasio_read path_stem self file_path
            = (Some (name well), self\<lparr>wells := AList.update (name well) well (wells self)\<rparr>)
          \<and> get_well (snd (load_well lasio_read path_stem self file_path)) (name well)
            = Some well
          \<and> (\<forall>n. n \<noteq> name well
                \<longrightarrow> get_well (snd (load_well lasio_read path_stem self file_path)) n
                    = get_well self n))
   \<and> (snd (load_well lasio_read path_stem self file_path) \<noteq> self
      \<longrightarrow> (\<exists>las. lasio_read file_path = Inr las)
          \<and> fst (load_from_las lasio_read path_stem (WellLogData_init ''Unknown Well'')
                 file_path))"
proof (intro conjI impI)
  show "load_well lasio_read path_stem self file_path = (None, self)"
    if "lasio_read file_path = Inl e"
    using that by (simp add: load_well_def load_from_las_def)
  show "load_well lasio_read path_stem self file_path = (None, self)"
    if "\<not> fst (load_from_las lasio_read path_stem (WellLogData_init ''Unknown Well'') file_path)"
    using that by (auto simp: load_well_def split: prod.splits bool.splits)
  assume ok: "load_from_las lasio_read path_stem (WellLogData_init ''Unknown Well'') file_path
        = (True, well)"
  show lw: "load_well lasio_read path_stem self file_path
            = (Some (name well), self\<lparr>wells := AList.update (name well) well (wells self)\<rparr>)"
    using ok by (simp add: load_well_def)
  show "get_well (snd (load_well lasio_read path_stem self file_path)) (name well) = Some well"
    by (simp add: lw get_well_def update_conv')
  show "\<forall>n. n \<noteq> name well
                \<longrightarrow> get_well (snd (load_well lasio_read path_stem self file_path)) n
                    = get_well self n"
    by (simp add: lw get_well_def update_conv')
next
  assume ch: "snd (load_well lasio_read path_stem self file_path) \<noteq> self"
  show "\<exists>las. lasio_read file_path = Inr las"
    using ch by (cases "lasio_read file_path") (auto simp: load_well_def load_from_las_def)
  show "fst (load_from_las lasio_read path_stem (WellLogData_init ''Unknown Well'') file_path)"
    using ch by (auto simp: load_well_def split: prod.splits bool.splits)
qed

text \<open>
  A path the reader rejects, a file whose columns differ in length, and a good file.
\<close>

theorem load_well_failure_leaves_collection_witness:
  "example_reader ''none.las'' = Inl ReadError
   \<and> load_well example_reader example_stem example_manager ''none.las''
       = (None, example_manager)
   \<and> fst (load_from_las example_reader example_stem (WellLogData_init ''Unknown Well'')
            ''ragged.las'') = False
   \<and> load_well example_reader example_stem example_manager ''ragged.las''
       = (None, example_manager)
   \<and> fst (load_well example_reader example_stem example_manager ''a1.las'') = Some ''A-1''
   \<and> map fst (wells (snd (load_well example_reader example_stem example_manager ''a1.las'')))
       = [''W'', ''A-1'']"
proof -
  have r: "example_reader ''none.las'' = Inl ReadError"
    by (simp add: example_reader_def)
  have g: "\<not> fst (load_from_las example_reader example_stem (WellLogData_init ''Unknown Well'')
            ''ragged.las'')"
    by (simp add: load_from_las_def example_reader_def ragged_las_def pd_DataFrame_def
        WellLogData_init_def)
  have a: "load_well example_reader example_stem example_manager ''none.las''
       = (None, example_manager)"
    using load_well_failure_leaves_collection [of example_reader "''none.las''" ReadError
        example_stem example_manager] r by blast
  have b: "load_well example_reader example_stem example_manager ''ragged.las''
       = (None, example_manager)"
    using load_well_failure_leaves_collection [of example_reader "''ragged.las''" ReadError
        example_stem example_manager] g by blast
  have c: "load_from_las example_reader example_stem (WellLogData_init ''Unknown Well'')
            ''a1.las''
       = (True, \<lparr>name = ''A-1'',
                 data = Some [(''DEPT'', [Fin 100, Fin 101]), (''GR'', [Fin 40, NaN])],
                 curves = [(''DEPT'', [Fin 100, Fin 101]), (''GR'', [Fin 40, NaN])],
                 units = [(''DEPT'', ''M''), (''GR'', ''GAPI'')],
                 descriptions = [(''DEPT'', ''Depth''), (''GR'', [])]\<rparr>)"
    by (simp add: load_from_las_def example_reader_def example_las_def pd_DataFrame_def
        WellLogData_init_def)
  have d: "fst (load_well example_reader example_stem example_manager ''a1.las'') = Some ''A-1''"
    "map fst (wells (snd (load_well example_reader example_stem example_manager ''a1.las'')))
       = [''W'', ''A-1'']"
    using load_well_failure_leaves_collection [where lasio_read = example_reader
        and file_path = "''a1.las''" and path_stem = example_stem
        and self = example_manager
        and well = "snd (load_from_las example_reader example_stem
                      (WellLogData_init ''Unknown Well'') ''a1.las'')"] c
    by (simp_all add: example_manager_def)
  show ?thesis using r g a b d by simp
qed

section \<open>Section view: track resize\<close>

lemma tracks_set_well_data: "tracks (snd (set_well_data c w)) = tracks c"
  by (simp add: set_well_data_def Let_def split: option.splits sum.splits)

lemma setup_display_nonempty: "tracks (setup_display c) \<noteq> []"
  by (simp add: setup_display_def default_tracks_def)

lemma setup_display_id: "tracks c \<noteq> [] \<Longrightarrow> setup_display c = c"
  by (simp add: setup_display_def)
lemma on_motion_resize:
  assumes "dragging c" "drag_track_idx c = Some i" "xdata ev = Some x"
    "drag_start_x c = Some x0" "i < length (tracks c)"
  shows "tracks (snd (on_motion c ev)) = (tracks c)[i := resized (tracks c ! i) x x0]"
proof -
  let ?c' = "c\<lparr>tracks := (tracks c)[i := resized (tracks c ! i) x x0]\<rparr>"
  have ne: "tracks ?c' \<noteq> []" using assms(5) by auto
  have sd: "setup_display ?c' = ?c'" using ne by (rule setup_display_id)
  show ?thesis
  proof (cases "well_data c")
    case None
    then have "on_motion c ev = (None, setup_display ?c')"
      using assms by (simp add: on_motion_def Let_def resized_def setup_display_def)
    then show ?thesis by (simp add: sd)
  next
    case (Some w)
    then have "on_motion c ev = set_well_data (setup_display ?c') w"
      using assms by (simp add: on_motion_def Let_def resized_def setup_display_def)
    then show ?thesis by (simp add: sd tracks_set_well_data)
  qed
qed

lemma tracks_set_well_data_pair: "set_well_data c w = (e, c') \<Longrightarrow> tracks c' = tracks c"
  using tracks_set_well_data [of c w] by simp

lemma on_motion_other:
  assumes "\<not> (dragging c \<and> (\<exists>i x x0. drag_track_idx c = Some i \<and> xdata ev = Some x
             \<and> drag_start_x c = Some x0 \<and> i < length (tracks c)))"
  shows "snd (on_motion c ev) = c"
  using assms
  by (auto simp: on_motion_def Let_def split: option.splits bool.splits)

lemma py_max_floor: "fl_le (Fin a) (py_max (Fin a) y)"
  by (cases y) (auto simp: py_max_def)

text \<open>
  C9. For every track list, every motion event leaves the number of tracks, their
  order, and every track's name, color and curve list unchanged, and changes no track
  but the one being dragged; a resize step on track \<open>i\<close> sets its width to
  \<^verbatim>\<open>max(0.1, width + delta * 0.01)\<close>, which is at least \<open>0.1\<close>.
\<close>

theorem resize_step_frame:
  "length (tracks (snd (on_motion c ev))) = length (tracks c)
   \<and> map track_name (tracks (snd (on_motion c ev))) = map track_name (tracks c)
   \<and> map color (tracks (snd (on_motion c ev))) = map color (tracks c)
   \<and> map track_curves (tracks (snd (on_motion c ev))) = map track_curves (tracks c)
   \<and> (\<forall>j < length (tracks c). drag_track_idx c \<noteq> Some j
        \<longrightarrow> tracks (snd (on_motion c ev)) ! j = tracks c ! j)
   \<and> (dragging c \<and> drag_track_idx c = Some i \<and> i < length (tracks c)
      \<and> xdata ev = Some x \<and> drag_start_x c = Some x0
      \<longrightarrow> width (tracks (snd (on_motion c ev)) ! i)
            = py_max (Fin 0.1)
                (fl_add (width (tracks c ! i)) (fl_mul (fl_sub x x0) (Fin 0.01)))
          \<and> fl_le (Fin 0.1) (width (tracks (snd (on_motion c ev)) ! i)))"
proof (cases "dragging c \<and> (\<exists>i x x0. drag_track_idx c = Some i \<and> xdata ev = Some x
             \<and> drag_start_x c = Some x0 \<and> i < length (tracks c))")
  case False
  have "snd (on_motion c ev) = c" using False by (rule on_motion_other)
  moreover have "\<not> (dragging c \<and> drag_track_idx c = Some i \<and> i < length (tracks c)
      \<and> xdata ev = Some x \<and> drag_start_x c = Some x0)"
    using False by blast
  ultimately show ?thesis by auto
next
  case True
  then obtain k y y0 where k: "dragging c" "drag_track_idx c = Some k" "xdata ev = Some y"
    "drag_start_x c = Some y0" "k < length (tracks c)" by blast
  have t: "tracks (snd (on_motion c ev)) = (tracks c)[k := resized (tracks c ! k) y y0]"
    using k by (rule on_motion_resize)
  have len: "length (tracks (snd (on_motion c ev))) = length (tracks c)"
    by (simp add: t)
  have names: "map track_name (tracks (snd (on_motion c ev))) = map track_name (tracks c)"
    by (simp add: t map_update resized_def list_update_same_conv k(5))
  have colors: "map color (tracks (snd (on_motion c ev))) = map color (tracks c)"
    by (simp add: t map_update resized_def list_update_same_conv k(5))
  have cs: "map track_curves (tracks (snd (on_motion c ev))) = map track_curves (tracks c)"
    by (simp add: t map_update resized_def list_update_same_conv k(5))
  have others: "\<forall>j < length (tracks c). drag_track_idx c \<noteq> Some j
        \<longrightarrow> tracks (snd (on_motion c ev)) ! j = tracks c ! j"
    using k(2) by (auto simp: t)
  have w: "width (tracks (snd (on_motion c ev)) ! i)
            = py_max (Fin 0.1)
                (fl_add (width (tracks c ! i)) (fl_mul (fl_sub x x0) (Fin 0.01)))
          \<and> fl_le (Fin 0.1) (width (tracks (snd (on_motion c ev)) ! i))"
    if "dragging c \<and> drag_track_idx c = Some i \<and> i < length (tracks c)
      \<and> xdata ev = Some x \<and> drag_start_x c = Some x0"
  proof -
    have "i = k" "x = y" "x0 = y0" using that k by simp_all
    then show ?thesis using k(5) by (simp add: t resized_def py_max_floor)
  qed
  show ?thesis using len names colors cs others w by blast
qed

text \<open>
  A drag of the GR track far to the left stops at the floor \<open>0.1\<close>; a drag to the right
  widens it; a NaN position gives the floor as well.
\<close>

theorem resize_step_frame_witness:
  "dragging dragging_canvas \<and> drag_track_idx dragging_canvas = Some 1
   \<and> map width (tracks (snd (on_motion dragging_canvas (motion_to (Fin (-10000))))))
       = [Fin (1/2), Fin (1/10), Fin 1, Fin 1, Fin 1]
   \<and> map width (tracks (snd (on_motion dragging_canvas (motion_to (Fin 150)))))
       = [Fin (1/2), Fin 2, Fin 1, Fin 1, Fin 1]
   \<and> map width (tracks (snd (on_motion dragging_canvas (motion_to NaN))))
       = [Fin (1/2), Fin (1/10), Fin 1, Fin 1, Fin 1]
   \<and> map track_name (tracks (snd (on_motion dragging_canvas (motion_to (Fin (-10000))))))
       = [''Depth'', ''GR'', ''Resistivity'', ''Density'', ''Neutron'']
   \<and> fl_le (Fin 0.1)
        (width (tracks (snd (on_motion dragging_canvas (motion_to (Fin (-10000))))) ! 1))"
proof -
  have d: "dragging dragging_canvas" "drag_track_idx dragging_canvas = Some 1"
    "drag_start_x dragging_canvas = Some (Fin 50)"
    "tracks dragging_canvas = default_tracks"
    by (simp_all add: dragging_canvas_def WellSectionCanvas_init_def setup_display_def
        default_tracks_def)
  have len: "(1::nat) < length (tracks dragging_canvas)"
    by (simp add: d default_tracks_def)
  have x: "xdata (motion_to v) = Some v" for v by (simp add: motion_to_def)
  have t: "tracks (snd (on_motion dragging_canvas (motion_to v)))
             = default_tracks[1 := resized (default_tracks ! 1) v (Fin 50)]" for v
    using on_motion_resize [OF d(1,2) x d(3) len] by (simp add: d)
  have w1: "map width (tracks (snd (on_motion dragging_canvas (motion_to (Fin (-10000))))))
       = [Fin (1/2), Fin (1/10), Fin 1, Fin 1, Fin 1]"
    by (simp add: t default_tracks_def Track_def resized_def py_max_def fl_sub_def fl_round_small)
  have w2: "map width (tracks (snd (on_motion dragging_canvas (motion_to (Fin 150)))))
       = [Fin (1/2), Fin 2, Fin 1, Fin 1, Fin 1]"
    by (simp add: t default_tracks_def Track_def resized_def py_max_def fl_sub_def fl_round_small)
  have w3: "map width (tracks (snd (on_motion dragging_canvas (motion_to NaN))))
       = [Fin (1/2), Fin (1/10), Fin 1, Fin 1, Fin 1]"
    by (simp add: t default_tracks_def Track_def resized_def py_max_def fl_sub_def fl_round_small)
  have n: "map track_name (tracks (snd (on_motion dragging_canvas (motion_to (Fin (-10000))))))
       = [''Depth'', ''GR'', ''Resistivity'', ''Density'', ''Neutron'']"
    using resize_step_frame [of dragging_canvas "motion_to (Fin (-10000))"]
    by (simp add: d default_tracks_def Track_def)
  have f: "fl_le (Fin 0.1)
        (width (tracks (snd (on_motion dragging_canvas (motion_to (Fin (-10000))))) ! 1))"
    using resize_step_frame [of dragging_canvas "motion_to (Fin (-10000))" 1
        "Fin (-10000)" "Fin 50"] d len x
    by blast
  show ?thesis using d w1 w2 w3 n f by simp
qed

section \<open>Rendering and the track list\<close>

lemma plot_curves_no_IndexError: "plot_curves ts w ns \<noteq> Inl IndexError"
  by (induction ns) (auto simp: list_get_def Let_def split: option.splits sum.splits)

lemma plot_curves_Inr:
  "plot_curves ts w ns = Inr ps \<Longrightarrow>
     map plot_curve ps
       = filter (\<lambda>n. get_curve_data w n \<noteq> None \<and> get_track_for_curve n < length ts) ns
     \<and> (\<forall>p \<in> set ps. plot_track p = get_track_for_curve (plot_curve p)
                        \<and> plot_track p < length ts)"
proof (induction ns arbitrary: ps)
  case Nil
  then show ?case by simp
next
  case (Cons n ns)
  show ?case
  proof (cases "get_curve_data w n \<noteq> None \<and> get_track_for_curve n < length ts")
    case False
    then have "plot_curves ts w (n # ns) = plot_curves ts w ns"
      by (auto simp: Let_def split: option.splits)
    then show ?thesis using Cons False by auto
  next
    case True
    then obtain samples where s: "get_curve_data w n = Some samples" by blast
    have idx: "get_track_for_curve n < length ts" using True by simp
    from Cons.prems s idx obtain ps' where ps': "plot_curves ts w ns = Inr ps'"
      "ps = \<lparr>plot_track = get_track_for_curve n, plot_curve = n,
             plot_color = (case map_of curve_colors n of Some c \<Rightarrow> c | None \<Rightarrow> ''black'')\<rparr> # ps'"
      by (auto simp: list_get_def Let_def split: if_splits sum.splits)
    show ?thesis using Cons.IH [OF ps'(1)] ps'(2) True idx by auto
  qed
qed

lemma get_curve_data_names:
  "n \<in> set (get_curve_names w) \<Longrightarrow> get_curve_data w n \<noteq> None"
  by (simp add: get_curve_names_def get_curve_data_def map_of_eq_None_iff)

text \<open>
  What holds for every track list: the loop never reads past the end, and when
  \<^verbatim>\<open>update_display\<close> returns it has plotted exactly the curves whose assigned track
  index is below the number of tracks, each into its assigned track. The read of
  \<^verbatim>\<open>self.tracks[0]\<close> after the loop is in bounds when the list is not empty.
\<close>

lemma update_display_nonempty:
  "tracks c \<noteq> [] \<Longrightarrow> update_display c \<noteq> Inl IndexError"
  using plot_curves_no_IndexError
  by (auto simp: update_display_def list_get_def Let_def split: option.splits sum.splits)

lemma update_display_empty:
  assumes "tracks c = []" "well_data c = Some w" "data w \<noteq> None"
  shows "update_display c = Inl IndexError"
proof -
  have "plot_curves [] w ns = Inr []" for ns
    by (induction ns) (auto simp: Let_def split: option.splits)
  then show ?thesis
    using assms by (simp add: update_display_def list_get_def Let_def)
qed

lemma update_display_plots:
  assumes "well_data c = Some w" "update_display c = Inr ps"
  shows "map plot_curve ps
           = filter (\<lambda>n. get_track_for_curve n < length (tracks c)) (get_curve_names w)
         \<and> (\<forall>p \<in> set ps. plot_track p = get_track_for_curve (plot_curve p)
               \<and> plot_track p < length (tracks c))"
proof -
  have "plot_curves (tracks c) w (get_curve_names w) = Inr ps"
    using assms
    by (auto simp: update_display_def Let_def split: option.splits sum.splits if_splits)
  note pc = plot_curves_Inr [OF this]
  have a: "map plot_curve ps
       = filter (\<lambda>n. get_curve_data w n \<noteq> None \<and> get_track_for_curve n < length (tracks c))
           (get_curve_names w)"
    and b: "\<forall>p \<in> set ps. plot_track p = get_track_for_curve (plot_curve p)
                \<and> plot_track p < length (tracks c)"
    using pc by blast+
  have "filter (\<lambda>n. get_curve_data w n \<noteq> None \<and> get_track_for_curve n < length (tracks c))
           (get_curve_names w)
        = filter (\<lambda>n. get_track_for_curve n < length (tracks c)) (get_curve_names w)"
    by (rule filter_cong) (auto dest: get_curve_data_names)
  then have "map plot_curve ps
       = filter (\<lambda>n. get_track_for_curve n < length (tracks c)) (get_curve_names w)"
    using a by simp
  then show ?thesis using b by blast
qed

text \<open>
  With two tracks the GR curve is plotted into track 1 and the density curve, assigned
  to track 3, is skipped.
\<close>

lemma update_display_two_tracks:
  "update_display two_track_canvas
     = Inr [\<lparr>plot_track = 1, plot_curve = ''GR'', plot_color = ''green''\<rparr>]"
  by (simp add: update_display_def two_track_canvas_def WellSectionCanvas_init_def
      setup_display_def example_well_def loaded_well_def WellLogData_init_def
      get_curve_names_def get_curve_data_def get_track_for_curve_def curve_track_map_def
      curve_colors_def list_get_def Track_def)

text \<open>
  A template that loads without an exception leaves the track list non-empty: the
  template's tracks, or the five default tracks when it has none.
\<close>

lemma load_template_tracks_append:
  "load_template_tracks ts tds = (None, ts') \<Longrightarrow> \<exists>new. ts' = ts @ new \<and> length new = length tds"
proof (induction tds arbitrary: ts)
  case Nil
  then show ?case by simp
next
  case (Cons td tds)
  from Cons.prems obtain n w c cs where
    "load_template_tracks (ts @ [(Track n w c)\<lparr>track_curves := cs\<rparr>]) tds = (None, ts')"
    by (auto split: option.splits)
  from Cons.IH [OF this] show ?case by auto
qed

lemma load_template_loaded:
  assumes "load_template self (Inr t) = (None, self')"
  shows "tracks (canvas self') \<noteq> []"
proof -
  from assms obtain tds ts cv where
    l: "load_template_tracks [] tds = (None, ts)"
    and cv: "(case current_well self of
                Some w \<Rightarrow> set_well_data (setup_display ((canvas self)\<lparr>tracks := ts\<rparr>)) w
              | None \<Rightarrow> (None, setup_display ((canvas self)\<lparr>tracks := ts\<rparr>))) = (None, cv)"
    and c: "canvas self' = cv"
    by (auto simp: load_template_def Let_def split: option.splits prod.splits)
  have "tracks cv = tracks (setup_display ((canvas self)\<lparr>tracks := ts\<rparr>))"
    using cv by (auto split: option.splits dest: tracks_set_well_data_pair)
  then show ?thesis using c setup_display_nonempty by simp
qed

lemma load_template_two_tracks:
  "map track_name
     (tracks (canvas (snd (load_template (edit_widget ''0'' ''100'') (Inr two_track_template)))))
     = [''Depth'', ''GR'']"
  by (simp add: load_template_def two_track_template_def edit_widget_def Let_def
      WellSectionCanvas_init_def setup_display_def Track_def)

text \<open>
  C10. Rendering does index the track list out of bounds, at a state that
  \<^verbatim>\<open>load_template\<close> reaches. A template file that is a JSON object without the key
  \<^verbatim>\<open>tracks\<close> raises \<^verbatim>\<open>KeyError\<close> after the track list has been emptied and before
  \<^verbatim>\<open>setup_display\<close> has run; the exception is caught, and the widget is left with no
  track. The next \<^verbatim>\<open>update_display\<close> skips every curve and then reads
  \<^verbatim>\<open>self.tracks[0]\<close>, which raises \<^verbatim>\<open>IndexError\<close>; the shale-volume button reaches it.
\<close>

theorem update_display_after_failed_template:
  "load_template example_widget (Inr no_tracks_template)
     = (Some KeyError, example_widget\<lparr>canvas := (canvas example_widget)\<lparr>tracks := []\<rparr>\<rparr>)
   \<and> tracks (canvas (snd (load_template example_widget (Inr no_tracks_template)))) = []
   \<and> well_data (canvas (snd (load_template example_widget (Inr no_tracks_template))))
       = Some example_well
   \<and> update_display (canvas (snd (load_template example_widget (Inr no_tracks_template))))
       = Inl IndexError
   \<and> fst (widget_calculate_shale_volume
            (snd (load_template example_widget (Inr no_tracks_template))))
       = Some IndexError"
proof -
  have l: "load_template example_widget (Inr no_tracks_template)
     = (Some KeyError, example_widget\<lparr>canvas := (canvas example_widget)\<lparr>tracks := []\<rparr>\<rparr>)"
    by (simp add: load_template_def no_tracks_template_def)
  have w: "well_data (canvas example_widget) = Some example_well"
    "current_well example_widget = Some example_well"
    by (simp_all add: example_widget_def)
  have d: "data example_well \<noteq> None"
    by (simp add: example_well_def loaded_well_def)
  have u: "update_display ((canvas example_widget)\<lparr>tracks := []\<rparr>) = Inl IndexError"
    by (rule update_display_empty [where w = example_well]) (simp_all add: w d)
  have gr: "map_of (curves example_well) ''GR'' = Some [Fin 30, Fin 90, Fin 150]"
    by (simp add: example_well_def loaded_well_def)
  have "update_display ((canvas example_widget)\<lparr>tracks := [], well_data := Some w'\<rparr>)
          = Inl IndexError" if "data w' \<noteq> None" for w'
    by (rule update_display_empty [where w = w']) (simp_all add: that)
  then have c: "fst (widget_calculate_shale_volume
            (example_widget\<lparr>canvas := (canvas example_widget)\<lparr>tracks := []\<rparr>\<rparr>))
       = Some IndexError"
    using d
    by (simp add: widget_calculate_shale_volume_def calculate_shale_volume_default_def
        calculate_shale_volume_eq [OF gr] w store_curve_def Let_def)
  show ?thesis using l w u c by simp
qed

section \<open>Session persistence\<close>

subsection \<open>Strings and numbers read back\<close>

lemma hexval_hexdigit: "d < 16 \<Longrightarrow> hexval (hexdigit d) = Some d"
proof -
  assume "d < 16"
  then have "d \<in> set [0, 1, 2, 3, 4, 5, 6, 7, 8, 9, 10, 11, 12, 13, 14, 15]"
    by (simp del: One_nat_def) arith
  moreover have "list_all (\<lambda>d. hexval (hexdigit d) = Some d)
      [0, 1, 2, 3, 4, 5, 6, 7, 8, 9, 10, 11, 12, 13, 14, 15]"
    by (simp add: hexdigit_def hexval_def)
  ultimately show ?thesis
    unfolding list_all_iff by blast
qed

lemma decode_control:
  assumes "of_char c < (32::nat)"
  shows "decode_uXXXX CHR ''0'' CHR ''0'' (hexdigit (of_char c div 16))
           (hexdigit (of_char c mod 16)) = Some c"
proof -
  let ?n = "of_char c :: nat"
  have hi: "hexval (hexdigit (?n div 16)) = Some (?n div 16)"
    using assms by (intro hexval_hexdigit) simp
  have lo: "hexval (hexdigit (?n mod 16)) = Some (?n mod 16)"
    by (intro hexval_hexdigit) simp
  have z: "hexval CHR ''0'' = Some 0" by (simp add: hexval_def)
  have "?n div 16 * 16 + ?n mod 16 = ?n" by simp
  moreover have "?n < 256" using assms by simp
  ultimately show ?thesis
    by (simp add: decode_uXXXX_def hi lo z)
qed

lemma scanstring_escape_char:
  "scanstring (escape_char c @ t) = map_option (\<lambda>(s, r). (c # s, r)) (scanstring t)"
proof -
  consider (q) "c = quote" | (b) "c = backslash" | (n) "c = newline" | (r) "c = CHR 0x0D"
    | (t) "c = CHR 0x09" | (bs) "c = CHR 0x08" | (f) "c = CHR 0x0C"
    | (ctl) "c \<noteq> quote" "c \<noteq> backslash" "c \<noteq> newline" "c \<noteq> CHR 0x0D" "c \<noteq> CHR 0x09"
        "c \<noteq> CHR 0x08" "c \<noteq> CHR 0x0C" "of_char c < (32::nat)"
    | (plain) "c \<noteq> quote" "c \<noteq> backslash" "\<not> of_char c < (32::nat)"
        "c \<noteq> newline" "c \<noteq> CHR 0x0D" "c \<noteq> CHR 0x09" "c \<noteq> CHR 0x08" "c \<noteq> CHR 0x0C"
    by blast
  then show ?thesis
  proof cases
    case ctl
    then show ?thesis
      by (simp add: escape_char_def decode_control)
  next
    case plain
    then show ?thesis by (simp add: escape_char_def)
  qed (simp_all add: escape_char_def unescape_def)
qed

lemma scanstring_concat:
  "scanstring (concat (map escape_char s) @ quote # rest) = Some (s, rest)"
  by (induction s) (simp_all add: scanstring_escape_char)

lemma scanstring_encode:
  "scanstring (tl (encode_basestring s) @ rest) = Some (s, rest)"
  by (simp add: encode_basestring_def scanstring_concat)

lemma decimal_digit:
  assumes "d < 10"
  shows "is_digit (hexdigit d)" "(of_char (hexdigit d) :: nat) - 48 = d"
    "hexdigit d = CHR ''0'' \<longleftrightarrow> d = 0" "hexdigit d \<noteq> CHR ''-''"
proof -
  have "d \<in> set [0, 1, 2, 3, 4, 5, 6, 7, 8, 9]"
    using assms by (simp del: One_nat_def) arith
  moreover have "list_all (\<lambda>d. is_digit (hexdigit d) \<and> (of_char (hexdigit d) :: nat) - 48 = d
      \<and> (hexdigit d = CHR ''0'' \<longleftrightarrow> d = 0) \<and> hexdigit d \<noteq> CHR ''-'')
      [0, 1, 2, 3, 4, 5, 6, 7, 8, 9]"
    by (simp add: hexdigit_def is_digit_def)
  ultimately have "is_digit (hexdigit d) \<and> (of_char (hexdigit d) :: nat) - 48 = d
      \<and> (hexdigit d = CHR ''0'' \<longleftrightarrow> d = 0) \<and> hexdigit d \<noteq> CHR ''-''"
    unfolding list_all_iff by blast
  then show "is_digit (hexdigit d)" "(of_char (hexdigit d) :: nat) - 48 = d"
    "hexdigit d = CHR ''0'' \<longleftrightarrow> d = 0" "hexdigit d \<noteq> CHR ''-''"
    by blast+
qed

lemma scan_digits_digits:
  "scan_digits acc (digits n @ rest) = scan_digits (acc * 10 ^ length (digits n) + n) rest"
proof (induction n arbitrary: acc rest rule: digits.induct)
  case (1 n)
  show ?case
  proof (cases "n < 10")
    case True
    then show ?thesis
      by (subst (1 2) digits.simps) (simp add: decimal_digit mult.commute)
  next
    case False
    have m: "n mod 10 < 10" by simp
    have "scan_digits acc (digits n @ rest)
        = scan_digits acc (digits (n div 10) @ hexdigit (n mod 10) # rest)"
      using False by (subst digits.simps) simp
    also have "\<dots> = scan_digits (acc * 10 ^ length (digits (n div 10)) + n div 10)
        (hexdigit (n mod 10) # rest)"
      using False by (intro "1.IH") simp
    also have "\<dots> = scan_digits
        (10 * (acc * 10 ^ length (digits (n div 10)) + n div 10) + n mod 10) rest"
      by (simp add: decimal_digit [OF m])
    also have "10 * (acc * 10 ^ length (digits (n div 10)) + n div 10) + n mod 10
        = acc * 10 ^ length (digits n) + n"
    proof -
      have "length (digits n) = Suc (length (digits (n div 10)))"
        using False by (subst digits.simps) simp
      then show ?thesis by (simp add: algebra_simps)
    qed
    finally show ?thesis .
  qed
qed

lemma digits_head:
  "digits n \<noteq> [] \<and> is_digit (hd (digits n)) \<and> (hd (digits n) = CHR ''0'' \<longrightarrow> n = 0)"
proof (induction n rule: digits.induct)
  case (1 n)
  show ?case
  proof (cases "n < 10")
    case True
    then show ?thesis by (subst (1 2 3) digits.simps) (simp add: decimal_digit)
  next
    case False
    then have "digits n = digits (n div 10) @ [hexdigit (n mod 10)]"
      by (subst digits.simps) simp
    moreover have "n div 10 \<noteq> 0" using False by simp
    ultimately show ?thesis using "1.IH" False by simp
  qed
qed

lemma digits_zero: "digits 0 = ''0''"
  by (subst digits.simps) (simp add: hexdigit_def)

lemma not_digit_delimited: "delimited rest \<Longrightarrow> scan_digits n rest = (n, rest)"
  by (cases rest) (auto simp: delimited_def is_digit_def)

lemma not_frac_delimited: "delimited rest \<Longrightarrow> \<not> frac_or_exp rest"
  by (auto simp: delimited_def frac_or_exp_def split: list.splits)

lemma scan_integer_digits:
  assumes "delimited rest"
  shows "scan_integer (digits n @ rest) = Some (n, rest)"
proof (cases "n = 0")
  case True
  then show ?thesis by (simp add: digits_zero scan_integer_def)
next
  case False
  obtain c cs where d: "digits n = c # cs" using digits_head [of n] by (cases "digits n") auto
  have c: "is_digit c" "c \<noteq> CHR ''0''" using digits_head [of n] d False by auto
  have "scan_integer (digits n @ rest) = Some (scan_digits 0 (digits n @ rest))"
    using c by (simp add: scan_integer_def d)
  also have "scan_digits 0 (digits n @ rest) = (n, rest)"
    by (simp add: scan_digits_digits not_digit_delimited [OF assms])
  finally show ?thesis .
qed

lemma scan_number_int_repr:
  assumes "delimited rest"
  shows "scan_number (int_repr i @ rest) = Some (JNum i, rest)"
proof (cases "i < 0")
  case True
  then show ?thesis
    by (simp add: scan_number_def int_repr_def scan_integer_digits [OF assms]
        not_frac_delimited [OF assms])
next
  case False
  obtain c cs where d: "digits (nat i) = c # cs"
    using digits_head [of "nat i"] by (cases "digits (nat i)") auto
  have c: "c \<noteq> CHR ''-''" using digits_head [of "nat i"] d by (auto simp: is_digit_def)
  have "scan_number (digits (nat i) @ rest)
      = (case scan_integer (digits (nat i) @ rest) of None \<Rightarrow> None
         | Some (n, r) \<Rightarrow> if frac_or_exp r then None else Some (JNum (int n), r))"
    using c by (simp add: scan_number_def d)
  then show ?thesis using False
    by (simp add: int_repr_def scan_integer_digits [OF assms] not_frac_delimited [OF assms])
qed

lemma int_repr_head:
  "\<exists>c cs. int_repr i = c # cs \<and> (c = CHR ''-'' \<or> is_digit c)"
  using digits_head [of "nat i"]
  by (cases "digits (nat i)") (auto simp: int_repr_def)

lemma scan_once_number:
  assumes "c = CHR ''-'' \<or> is_digit c"
  shows "scan_once (Suc n) (c # cs) = scan_number (c # cs)"
proof -
  have "c \<noteq> quote" "c \<noteq> CHR ''{''" "c \<noteq> CHR ''[''" "c \<noteq> CHR ''n''" "c \<noteq> CHR ''t''"
    "c \<noteq> CHR ''f''"
    using assms by (auto simp: is_digit_def)
  then show ?thesis by simp
qed

subsection \<open>Values read back\<close>

lemma encode_basestring_Cons: "encode_basestring s = quote # tl (encode_basestring s)"
  by (simp add: encode_basestring_def)

lemma iterencode_head: "\<exists>c cs. iterencode L v = c # cs \<and> value_start c"
proof (cases v)
  case (JNum i)
  obtain c cs where "int_repr i = c # cs" "c = CHR ''-'' \<or> is_digit c"
    using int_repr_head by blast
  then show ?thesis using JNum by (auto simp: value_start_def is_ws_def is_digit_def)
next
  case (JStr s)
  then show ?thesis by (simp add: encode_basestring_def value_start_def is_ws_def)
qed (auto simp: value_start_def is_ws_def)

lemma skip_ws_start: "value_start c \<Longrightarrow> skip_ws (c # cs) = c # cs"
  by (simp add: skip_ws_def value_start_def)

lemma skip_ws_newline_indent: "skip_ws (newline_indent L @ s) = skip_ws s"
proof -
  have "\<forall>c \<in> set (newline_indent L). is_ws c"
    by (auto simp: newline_indent_def is_ws_def)
  then show ?thesis unfolding skip_ws_def by (simp add: dropWhile_append2)
qed

lemma skip_ws_punct:
  "skip_ws (CHR '','' # r) = CHR '','' # r"
  "skip_ws (newline_indent L @ CHR '']'' # r) = CHR '']'' # r"
  "skip_ws (newline_indent L @ CHR ''}'' # r) = CHR ''}'' # r"
  by (simp_all add: skip_ws_newline_indent) (simp_all add: skip_ws_def is_ws_def)

lemma join_head: "join sep ((c # cs) # ys) = c # join sep (cs # ys)"
  by (cases ys) simp_all

lemma skip_ws_join:
  "value_start c \<Longrightarrow>
     skip_ws (newline_indent L @ join sep ((c # cs) # ys) @ t) = join sep ((c # cs) # ys) @ t"
  by (simp add: skip_ws_newline_indent join_head skip_ws_start)

lemma skip_ws_iterencode: "skip_ws (iterencode L v @ r) = iterencode L v @ r"
  using iterencode_head [of L v] by (auto simp: skip_ws_start)

lemma delimited_simps [simp]:
  "delimited []" "delimited (CHR '','' # s)" "delimited (newline_indent L @ s)"
  by (simp_all add: delimited_def newline_indent_def)

lemma update_fresh: "k \<notin> fst ` set al \<Longrightarrow> AList.update k v al = al @ [(k, v)]"
  by (induction al) auto

lemma dict_of_pairs_distinct_aux:
  "distinct (map fst (acc @ ps)) \<Longrightarrow>
     foldl (\<lambda>d (k, v). AList.update k v d) acc ps = acc @ ps"
proof (induction ps arbitrary: acc)
  case Nil
  then show ?case by simp
next
  case (Cons p ps)
  obtain k v where p: "p = (k, v)" by (cases p)
  have fresh: "k \<notin> fst ` set acc" using Cons.prems p by auto
  have "distinct (map fst ((acc @ [(k, v)]) @ ps))" using Cons.prems p by simp
  from Cons.IH [OF this] show ?case using p fresh by (simp add: update_fresh)
qed

lemma dict_of_pairs_distinct: "distinct (map fst ps) \<Longrightarrow> dict_of_pairs ps = ps"
  using dict_of_pairs_distinct_aux [of "[]" ps] by (simp add: dict_of_pairs_def)

lemma iterencode_length_pos: "0 < length (iterencode L v)"
  using iterencode_head [of L v] by auto

lemma scan_array_join:
  assumes "\<And>x m r. x \<in> set xs \<Longrightarrow> length (iterencode L1 x) < m \<Longrightarrow> delimited r
             \<Longrightarrow> scan_once m (iterencode L1 x @ r) = Some (x, r)"
    and "xs \<noteq> []"
    and "length (join (CHR '','' # newline_indent L1) (map (iterencode L1) xs)) + 1 < n"
  shows "scan_array n (join (CHR '','' # newline_indent L1) (map (iterencode L1) xs)
           @ newline_indent L @ CHR '']'' # rest) = Some (xs, rest)"
  using assms
proof (induction xs arbitrary: n)
  case Nil
  then show ?case by simp
next
  case (Cons x xs)
  obtain m where n: "n = Suc m" using Cons.prems(3) by (cases n) auto
  show ?case
  proof (cases xs)
    case Nil
    have len: "length (iterencode L1 x) < m" using Cons.prems(3) Nil n by simp
    have "scan_once m (iterencode L1 x @ newline_indent L @ CHR '']'' # rest)
        = Some (x, newline_indent L @ CHR '']'' # rest)"
      by (rule Cons.prems(1)) (simp_all add: len)
    then show ?thesis
      using Nil n by (simp add: skip_ws_punct)
  next
    case (Cons y ys)
    let ?sep = "CHR '','' # newline_indent L1"
    let ?tail = "join ?sep (map (iterencode L1) xs) @ newline_indent L @ CHR '']'' # rest"
    have len: "length (iterencode L1 x) < m"
      and len': "length (join ?sep (map (iterencode L1) xs)) + 1 < m"
      using Cons.prems(3) Cons n iterencode_length_pos [of L1 x] by simp_all
    have 1: "scan_once m (iterencode L1 x @ ?sep @ ?tail) = Some (x, ?sep @ ?tail)"
      by (rule Cons.prems(1)) (simp_all add: len)
    have 2: "scan_array m ?tail = Some (xs, rest)"
      by (rule Cons.IH) (use Cons.prems(1) Cons len' in auto)
    obtain c cs where h: "iterencode L1 y = c # cs" "value_start c"
      using iterencode_head by blast
    have 3: "skip_ws (newline_indent L1 @ ?tail) = ?tail"
      using h Cons by (simp add: skip_ws_join)
    have "scan_array (Suc m) (iterencode L1 x @ ?sep @ ?tail) = Some (x # xs, rest)"
      using 1 2 3 by (simp add: skip_ws_punct)
    then show ?thesis using Cons n by simp
  qed
qed

lemma member_length: "length (iterencode L (snd kv)) + 4 \<le> length (member L kv)"
  by (simp add: member_def encode_basestring_def)

lemma scan_object_join:
  assumes "\<And>kv m r. kv \<in> set kvs \<Longrightarrow> length (iterencode L1 (snd kv)) < m \<Longrightarrow> delimited r
             \<Longrightarrow> scan_once m (iterencode L1 (snd kv) @ r) = Some (snd kv, r)"
    and "kvs \<noteq> []"
    and "length (join (CHR '','' # newline_indent L1) (map (member L1) kvs)) + 1 < n"
  shows "scan_object n (join (CHR '','' # newline_indent L1) (map (member L1) kvs)
           @ newline_indent L @ CHR ''}'' # rest) = Some (kvs, rest)"
  using assms
proof (induction kvs arbitrary: n)
  case Nil
  then show ?case by simp
next
  case (Cons kv kvs)
  obtain m where n: "n = Suc m" using Cons.prems(3) by (cases n) auto
  obtain k v where kv: "kv = (k, v)" by (cases kv)
  have key: "\<And>t. scan_object (Suc m) (member L1 kv @ t)
      = (case scan_once m (iterencode L1 v @ t) of
           None \<Rightarrow> None
         | Some (v', r2) \<Rightarrow>
             (case skip_ws r2 of
                [] \<Rightarrow> None
              | d # r3 \<Rightarrow>
                  if d = CHR ''}'' then Some ([(k, v')], r3)
                  else if d = CHR '','' then
                    (case scan_object m (skip_ws r3) of
                       None \<Rightarrow> None
                     | Some (ps, r4) \<Rightarrow> Some ((k, v') # ps, r4))
                  else None))"
  proof -
    fix t
    have "member L1 kv @ t
        = quote # (tl (encode_basestring k) @ CHR '':'' # CHR '' '' # iterencode L1 v @ t)"
      by (simp add: member_def kv encode_basestring_def)
    moreover have "skip_ws (CHR '':'' # CHR '' '' # iterencode L1 v @ t)
        = CHR '':'' # CHR '' '' # iterencode L1 v @ t"
      by (simp add: skip_ws_def is_ws_def)
    moreover have "skip_ws (CHR '' '' # iterencode L1 v @ t) = iterencode L1 v @ t"
      using skip_ws_iterencode [of L1 v t] by (simp add: skip_ws_def is_ws_def)
    ultimately show "scan_object (Suc m) (member L1 kv @ t)
      = (case scan_once m (iterencode L1 v @ t) of
           None \<Rightarrow> None
         | Some (v', r2) \<Rightarrow>
             (case skip_ws r2 of
                [] \<Rightarrow> None
              | d # r3 \<Rightarrow>
                  if d = CHR ''}'' then Some ([(k, v')], r3)
                  else if d = CHR '','' then
                    (case scan_object m (skip_ws r3) of
                       None \<Rightarrow> None
                     | Some (ps, r4) \<Rightarrow> Some ((k, v') # ps, r4))
                  else None))"
      by (simp add: scanstring_encode)
  qed
  show ?case
  proof (cases kvs)
    case Nil
    have len: "length (iterencode L1 v) < m"
      using Cons.prems(3) Nil n member_length [of L1 kv] kv by simp
    have "scan_once m (iterencode L1 v @ newline_indent L @ CHR ''}'' # rest)
        = Some (v, newline_indent L @ CHR ''}'' # rest)"
      using Cons.prems(1) [of kv m "newline_indent L @ CHR ''}'' # rest"] len kv by simp
    then show ?thesis
      using Nil n kv key [of "newline_indent L @ CHR ''}'' # rest"]
      by (simp add: skip_ws_punct)
  next
    case (Cons kv2 kvs2)
    let ?sep = "CHR '','' # newline_indent L1"
    let ?tail = "join ?sep (map (member L1) kvs) @ newline_indent L @ CHR ''}'' # rest"
    have len: "length (iterencode L1 v) < m"
      and len': "length (join ?sep (map (member L1) kvs)) + 1 < m"
      using Cons.prems(3) Cons n member_length [of L1 kv] kv by simp_all
    have 1: "scan_once m (iterencode L1 v @ ?sep @ ?tail) = Some (v, ?sep @ ?tail)"
      using Cons.prems(1) [of kv m "?sep @ ?tail"] len kv by simp
    have 2: "scan_object m ?tail = Some (kvs, rest)"
      by (rule Cons.IH) (use Cons.prems(1) Cons len' in auto)
    have 3: "skip_ws (newline_indent L1 @ ?tail) = ?tail"
    proof -
      have "value_start quote" by (simp add: value_start_def is_ws_def)
      then show ?thesis
        using Cons skip_ws_join [of quote L1 _ "tl (member L1 kv2)"]
        by (simp add: member_def encode_basestring_def)
    qed
    have "scan_object (Suc m) (member L1 kv @ ?sep @ ?tail) = Some (kv # kvs, rest)"
      using 1 2 3 kv by (subst key) (simp add: skip_ws_punct)
    then show ?thesis using Cons n by simp
  qed
qed

lemma iterencode_JObj:
  "iterencode L (JObj kvs) =
     (if kvs = [] then ''{}''
      else ''{'' @ newline_indent (Suc L)
           @ join (CHR '','' # newline_indent (Suc L)) (map (member (Suc L)) kvs)
           @ newline_indent L @ ''}'')"
  by (simp add: member_def [abs_def] case_prod_unfold)

lemma scan_once_iterencode:
  "wf_json v \<Longrightarrow> length (iterencode L v) < n \<Longrightarrow> delimited r
     \<Longrightarrow> scan_once n (iterencode L v @ r) = Some (v, r)"
proof (induction v arbitrary: L n r)
  case JNull
  then obtain m where "n = Suc m" by (cases n) auto
  then show ?case by simp
next
  case (JBool b)
  then obtain m where "n = Suc m" by (cases n) auto
  then show ?case by simp
next
  case (JNum i)
  then obtain m where n: "n = Suc m" by (cases n) auto
  obtain c cs where h: "int_repr i = c # cs" "c = CHR ''-'' \<or> is_digit c"
    using int_repr_head by blast
  have "scan_once (Suc m) (int_repr i @ r) = scan_number (int_repr i @ r)"
    using scan_once_number [OF h(2)] h(1) by simp
  then show ?case using n scan_number_int_repr [OF JNum.prems(3)] by simp
next
  case (JStr s)
  then obtain m where n: "n = Suc m" by (cases n) auto
  have "iterencode L (JStr s) @ r = quote # (concat (map escape_char s) @ quote # r)"
    by (simp add: encode_basestring_def)
  then show ?case using n by (simp add: scanstring_concat)
next
  case (JArr xs)
  then obtain m where n: "n = Suc m" by (cases n) auto
  show ?case
  proof (cases "xs = []")
    case True
    then show ?thesis using n by (simp add: skip_ws_def is_ws_def)
  next
    case False
    let ?sep = "CHR '','' # newline_indent (Suc L)"
    let ?body = "join ?sep (map (iterencode (Suc L)) xs)"
    have enc: "iterencode L (JArr xs) @ r
        = CHR ''['' # (newline_indent (Suc L) @ ?body @ newline_indent L @ CHR '']'' # r)"
      using False by simp
    have len: "length ?body + 1 < m"
      using JArr.prems(2) n False by (simp add: newline_indent_def)
    obtain x xs' where xs: "xs = x # xs'" using False by (cases xs) auto
    obtain c cs where h: "iterencode (Suc L) x = c # cs" "value_start c"
      using iterencode_head by blast
    have sk: "skip_ws (newline_indent (Suc L) @ ?body @ newline_indent L @ CHR '']'' # r)
        = ?body @ newline_indent L @ CHR '']'' # r"
      using h xs by (simp add: skip_ws_join)
    have hd: "\<exists>d t. ?body @ newline_indent L @ CHR '']'' # r = d # t \<and> d \<noteq> CHR '']''"
      using h xs by (auto simp: join_head value_start_def)
    have arr: "scan_array m (?body @ newline_indent L @ CHR '']'' # r) = Some (xs, r)"
    proof (rule scan_array_join [OF _ False len])
      fix y k t
      assume "y \<in> set xs" "length (iterencode (Suc L) y) < k" "delimited t"
      then show "scan_once k (iterencode (Suc L) y @ t) = Some (y, t)"
        using JArr.IH [of y "Suc L" k t] JArr.prems(1) by simp
    qed
    from hd obtain d t where dt: "?body @ newline_indent L @ CHR '']'' # r = d # t"
      "d \<noteq> CHR '']''" by blast
    have "scan_once (Suc m)
        (CHR ''['' # (newline_indent (Suc L) @ ?body @ newline_indent L @ CHR '']'' # r))
        = Some (JArr xs, r)"
      using arr sk dt(2) unfolding dt(1) by simp
    then show ?thesis using n enc by simp
  qed
next
  case (JObj kvs)
  then obtain m where n: "n = Suc m" by (cases n) auto
  show ?case
  proof (cases "kvs = []")
    case True
    then show ?thesis using n by (simp add: skip_ws_def is_ws_def)
  next
    case False
    let ?sep = "CHR '','' # newline_indent (Suc L)"
    let ?body = "join ?sep (map (member (Suc L)) kvs)"
    have enc: "iterencode L (JObj kvs) @ r
        = CHR ''{'' # (newline_indent (Suc L) @ ?body @ newline_indent L @ CHR ''}'' # r)"
      using False by (simp add: iterencode_JObj del: iterencode.simps(6))
    have len: "length ?body + 1 < m"
      using JObj.prems(2) n False
      by (simp add: newline_indent_def iterencode_JObj del: iterencode.simps(6))
    obtain kv kvs' where kvs: "kvs = kv # kvs'" using False by (cases kvs) auto
    have q: "value_start quote" by (simp add: value_start_def is_ws_def)
    have m: "member (Suc L) kv = quote # tl (member (Suc L) kv)"
      by (simp add: member_def encode_basestring_def)
    have sk: "skip_ws (newline_indent (Suc L) @ ?body @ newline_indent L @ CHR ''}'' # r)
        = ?body @ newline_indent L @ CHR ''}'' # r"
      using kvs skip_ws_join [OF q, of "Suc L" ?sep "tl (member (Suc L) kv)"] m
      by (metis list.simps(9))
    have dt: "?body @ newline_indent L @ CHR ''}'' # r
        = quote # (join ?sep (tl (member (Suc L) kv) # map (member (Suc L)) kvs')
                   @ newline_indent L @ CHR ''}'' # r)"
      using kvs m join_head [of ?sep quote "tl (member (Suc L) kv)"]
      by (metis append_Cons list.simps(9))
    have obj: "scan_object m (?body @ newline_indent L @ CHR ''}'' # r) = Some (kvs, r)"
    proof (rule scan_object_join [OF _ False len])
      fix p k t
      assume a: "p \<in> set kvs" "length (iterencode (Suc L) (snd p)) < k" "delimited t"
      have "snd p \<in> Basic_BNFs.snds p" by (cases p) simp
      moreover have "wf_json (snd p)" using JObj.prems(1) a(1) by simp
      ultimately show "scan_once k (iterencode (Suc L) (snd p) @ t) = Some (snd p, t)"
        using JObj.IH [of p "snd p" "Suc L" k t] a by blast
    qed
    have d: "dict_of_pairs kvs = kvs"
      using JObj.prems(1) by (simp add: dict_of_pairs_distinct)
    have "scan_once (Suc m)
        (CHR ''{'' # (newline_indent (Suc L) @ ?body @ newline_indent L @ CHR ''}'' # r))
        = Some (JObj kvs, r)"
      using obj sk d unfolding dt by simp
    then show ?thesis using n enc by simp
  qed
qed

lemma skip_ws_newlines: "skip_ws (replicate k newline @ s) = skip_ws s"
  by (induction k) (simp_all add: skip_ws_def is_ws_def)

lemma json_loads_dump:
  assumes "wf_json v"
  shows "json_loads (replicate k newline @ json_dump v) = Some v"
proof -
  have "scan_once (Suc (length (replicate k newline @ json_dump v))) (json_dump v @ [])
      = Some (v, [])"
    unfolding json_dump_def by (rule scan_once_iterencode [OF assms]) simp_all
  moreover have "skip_ws (replicate k newline @ json_dump v) = json_dump v"
    using skip_ws_iterencode [of 0 v "[]"] by (simp add: skip_ws_newlines json_dump_def)
  ultimately show ?thesis
    by (simp add: json_loads_def skip_ws_def)
qed

subsection \<open>Comment stripping on written text\<close>

lemma strip_block_id: "\<not> occurs2 CHR ''/'' CHR ''*'' s \<Longrightarrow> strip_block s = s"
  by (induction s rule: strip_block.induct) auto

lemma strip_line_id: "\<not> occurs2 CHR ''/'' CHR ''/'' s \<Longrightarrow> strip_line s = s"
  by (induction s rule: strip_line.induct) auto

lemma strip_line_newline: "strip_line (newline # s) = newline # strip_line s"
  by (cases s) simp_all

lemma dropWhile_to_newline:
  "newline \<notin> set xs \<Longrightarrow> dropWhile (\<lambda>c. c \<noteq> newline) (xs @ newline # rest) = newline # rest"
  by (induction xs) auto

lemma strip_line_comment:
  assumes "newline \<notin> set line"
  shows "strip_line (''// '' @ line @ newline # rest) = newline # strip_line rest"
proof -
  have "dropWhile (\<lambda>c. c \<noteq> newline) (CHR '' '' # line @ newline # rest) = newline # rest"
    using dropWhile_to_newline [OF assms, of rest] by simp
  then show ?thesis by (simp add: strip_line_newline)
qed

lemma strip_line_header:
  assumes "\<forall>line \<in> set lines. newline \<notin> set line"
  shows "strip_line (concat (map (\<lambda>line. ''// '' @ line @ [newline]) lines) @ doc)
           = replicate (length lines) newline @ strip_line doc"
  using assms
proof (induction lines)
  case Nil
  then show ?case by simp
next
  case (Cons line lines)
  have "strip_line (''// '' @ line @ newline
          # (concat (map (\<lambda>line. ''// '' @ line @ [newline]) lines) @ doc))
      = newline # strip_line (concat (map (\<lambda>line. ''// '' @ line @ [newline]) lines) @ doc)"
    using Cons.prems by (intro strip_line_comment) simp
  then show ?case using Cons by simp
qed

lemma splitlines_from_no_newline:
  "newline \<notin> set cur \<Longrightarrow> \<forall>line \<in> set (splitlines_from cur s). newline \<notin> set line"
proof (induction cur s rule: splitlines_from.induct)
  case (1 cur)
  then show ?case by simp
next
  case (2 cur c cs)
  have nl: "is_linebreak newline" by (simp add: is_linebreak_def)
  show ?case
  proof (cases "c = CHR 0x0D \<and> (case cs of d # r \<Rightarrow> d = newline | [] \<Rightarrow> False)")
    case True
    then show ?thesis using 2 by simp
  next
    case False
    show ?thesis
    proof (cases "is_linebreak c")
      case True
      then show ?thesis using 2 False by auto
    next
      case nb: False
      then have "c \<noteq> newline" using nl by auto
      then show ?thesis using 2 False nb by auto
    qed
  qed
qed

lemma occurs2_Cons:
  "occurs2 a b (x # s) \<longleftrightarrow> (s \<noteq> [] \<and> x = a \<and> hd s = b) \<or> occurs2 a b s"
  by (cases s) auto

lemma occurs2_append:
  "occurs2 a b (p @ q) \<longleftrightarrow>
     occurs2 a b p \<or> occurs2 a b q \<or> (p \<noteq> [] \<and> q \<noteq> [] \<and> last p = a \<and> hd q = b)"
proof (induction p)
  case Nil
  then show ?case by simp
next
  case (Cons x p)
  show ?case
  proof (cases p)
    case Nil
    then show ?thesis by (auto simp: occurs2_Cons [of a b x q])
  next
    case (Cons y p')
    then show ?thesis
      using Cons.IH by (simp add: occurs2_Cons [of a b x])
  qed
qed

lemma occurs2_prefix: "\<not> occurs2 a b (p @ q) \<Longrightarrow> \<not> occurs2 a b p"
  by (simp add: occurs2_append)

lemma occurs2_suffix: "\<not> occurs2 a b (p @ q) \<Longrightarrow> \<not> occurs2 a b q"
  by (simp add: occurs2_append)

lemma splitlines_from_occurs2:
  "\<not> occurs2 a b (cur @ s) \<Longrightarrow> \<forall>line \<in> set (splitlines_from cur s). \<not> occurs2 a b line"
proof (induction cur s rule: splitlines_from.induct)
  case (1 cur)
  then show ?case by simp
next
  case (2 cur c cs)
  have cur: "\<not> occurs2 a b cur" using "2.prems" by (rule occurs2_prefix)
  have cs: "\<not> occurs2 a b cs"
    using occurs2_suffix [of a b "cur @ [c]" cs] "2.prems" by simp
  have tl: "\<not> occurs2 a b (tl cs)"
    using occurs2_suffix [of a b "[hd cs]" "tl cs"] cs by (cases cs) auto
  have ext: "\<not> occurs2 a b ((cur @ [c]) @ cs)" using "2.prems" by simp
  show ?case
  proof (cases "c = CHR 0x0D \<and> (case cs of d # r \<Rightarrow> d = newline | [] \<Rightarrow> False)")
    case True
    then show ?thesis using "2.IH"(1) cur tl by simp
  next
    case False
    show ?thesis
    proof (cases "is_linebreak c")
      case True
      then show ?thesis using "2.IH"(2) False cur cs by auto
    next
      case nb: False
      then show ?thesis using "2.IH"(3) False ext by auto
    qed
  qed
qed

lemma occurs2_in_set: "occurs2 a b t \<Longrightarrow> a \<in> set t"
  by (induction a b t rule: occurs2.induct) auto

lemma clean_append: "clean b p \<Longrightarrow> clean b q \<Longrightarrow> clean b (p @ q)"
  by (cases "q = []") (auto simp: clean_def occurs2_append)

lemma clean_no_slash:
  assumes "CHR ''/'' \<notin> set t"
  shows "clean b t"
proof -
  have "\<not> occurs2 CHR ''/'' b t"
    using occurs2_in_set [of "CHR ''/''" b t] assms by blast
  moreover have "last t \<noteq> CHR ''/''" if "t \<noteq> []"
    using last_in_set [OF that] assms by metis
  ultimately show ?thesis by (simp add: clean_def)
qed

lemma clean_Nil [simp]: "clean b []"
  by (simp add: clean_def)

lemma hexdigit_plain: "d < 16 \<Longrightarrow> hexdigit d \<noteq> CHR ''/'' \<and> hexdigit d \<noteq> CHR ''*''"
proof -
  assume "d < 16"
  then have "d \<in> set [0, 1, 2, 3, 4, 5, 6, 7, 8, 9, 10, 11, 12, 13, 14, 15]"
    by (simp del: One_nat_def) arith
  moreover have "list_all (\<lambda>d. hexdigit d \<noteq> CHR ''/'' \<and> hexdigit d \<noteq> CHR ''*'')
      [0, 1, 2, 3, 4, 5, 6, 7, 8, 9, 10, 11, 12, 13, 14, 15]"
    by (simp add: hexdigit_def)
  ultimately show ?thesis unfolding list_all_iff by blast
qed

lemma escape_char_plain:
  assumes "c \<noteq> CHR ''/''" "c \<noteq> CHR ''*''"
  shows "CHR ''/'' \<notin> set (escape_char c) \<and> CHR ''*'' \<notin> set (escape_char c)"
proof -
  have "of_char c < (32::nat) \<Longrightarrow> (of_char c :: nat) div 16 < 16" by simp
  moreover have "(of_char c :: nat) mod 16 < 16" by simp
  ultimately show ?thesis
    using assms hexdigit_plain [of "of_char c div 16"] hexdigit_plain [of "of_char c mod 16"]
    by (auto simp: escape_char_def)
qed

lemma escape_char_marker: "escape_char CHR ''/'' = ''/''" "escape_char CHR ''*'' = ''*''"
  by (simp_all add: escape_char_def)

lemma escape_char_nonempty: "escape_char c \<noteq> []"
  by (simp add: escape_char_def)

lemma hd_escaped:
  "s \<noteq> [] \<Longrightarrow> hd (concat (map escape_char s)) = hd (escape_char (hd s))"
  by (cases s) (simp_all add: escape_char_nonempty)

lemma escaped_nonempty: "concat (map escape_char s) \<noteq> [] \<longleftrightarrow> s \<noteq> []"
  by (cases s) (simp_all add: escape_char_nonempty)

lemma marker_in_escape:
  assumes "b = CHR ''/'' \<or> b = CHR ''*''" "b \<in> set (escape_char c)"
  shows "c = b"
proof (cases "c = CHR ''/'' \<or> c = CHR ''*''")
  case True
  then show ?thesis
  proof
    assume "c = CHR ''/''"
    then show ?thesis using assms(2) by (simp add: escape_char_marker)
  next
    assume "c = CHR ''*''"
    then show ?thesis using assms(2) by (simp add: escape_char_marker)
  qed
next
  case False
  then have "CHR ''/'' \<notin> set (escape_char c) \<and> CHR ''*'' \<notin> set (escape_char c)"
    by (intro escape_char_plain) simp_all
  then show ?thesis using assms by blast
qed

lemma hd_escape_marker:
  assumes "b = CHR ''/'' \<or> b = CHR ''*''" "hd (escape_char c) = b"
  shows "c = b"
proof -
  have "hd (escape_char c) \<in> set (escape_char c)"
    using escape_char_nonempty [of c] by (rule hd_in_set)
  then have "b \<in> set (escape_char c)" using assms(2) by simp
  then show ?thesis using assms(1) by (rule marker_in_escape [rotated])
qed

lemma last_escape_slash:
  assumes "last (escape_char c) = CHR ''/''"
  shows "c = CHR ''/''"
proof -
  have "last (escape_char c) \<in> set (escape_char c)"
    using escape_char_nonempty [of c] by (rule last_in_set)
  then have "CHR ''/'' \<in> set (escape_char c)" using assms by simp
  then show ?thesis by (rule marker_in_escape [rotated]) simp
qed

lemma occurs2_escape_char:
  assumes "b = CHR ''/'' \<or> b = CHR ''*''"
  shows "\<not> occurs2 CHR ''/'' b (escape_char c)"
proof (cases "c = CHR ''/''")
  case True
  then show ?thesis by (simp add: escape_char_marker)
next
  case False
  have "CHR ''/'' \<notin> set (escape_char c)"
  proof
    assume "CHR ''/'' \<in> set (escape_char c)"
    then have "c = CHR ''/''" by (rule marker_in_escape [rotated]) simp
    then show False using False by simp
  qed
  then show ?thesis using occurs2_in_set [of "CHR ''/''" b "escape_char c"] by blast
qed

lemma occurs2_escaped:
  assumes "b = CHR ''/'' \<or> b = CHR ''*''"
  shows "\<not> occurs2 CHR ''/'' b s \<Longrightarrow> \<not> occurs2 CHR ''/'' b (concat (map escape_char s))"
proof (induction s)
  case Nil
  then show ?case by simp
next
  case (Cons c s)
  have tail: "\<not> occurs2 CHR ''/'' b (concat (map escape_char s))"
    using Cons by (simp add: occurs2_Cons [of _ _ c s])
  have boundary: "\<not> (concat (map escape_char s) \<noteq> []
      \<and> last (escape_char c) = CHR ''/'' \<and> hd (concat (map escape_char s)) = b)"
  proof
    assume a: "concat (map escape_char s) \<noteq> []
      \<and> last (escape_char c) = CHR ''/'' \<and> hd (concat (map escape_char s)) = b"
    then have s: "s \<noteq> []" using escaped_nonempty [of s] by blast
    have "c = CHR ''/''" using a by (simp add: last_escape_slash)
    moreover have "hd (escape_char (hd s)) = b" using a s by (simp add: hd_escaped)
    then have "hd s = b" using assms by (rule hd_escape_marker [rotated])
    ultimately have "occurs2 CHR ''/'' b (c # s)"
      using s occurs2_Cons [of "CHR ''/''" b c s] by blast
    then show False using Cons.prems by simp
  qed
  show ?case
    using tail boundary occurs2_escape_char [OF assms, of c]
    by (simp add: occurs2_append)
qed

lemma clean_encode_basestring:
  assumes "b = CHR ''/'' \<or> b = CHR ''*''" "markers_free s"
  shows "clean b (encode_basestring s)"
proof -
  have "\<not> occurs2 CHR ''/'' b s" using assms by (auto simp: markers_free_def)
  then have "\<not> occurs2 CHR ''/'' b (concat (map escape_char s))"
    by (rule occurs2_escaped [OF assms(1)])
  then have "\<not> occurs2 CHR ''/'' b (concat (map escape_char s) @ [quote])"
    using assms(1) by (auto simp: occurs2_append)
  then show ?thesis
    by (simp add: clean_def encode_basestring_def occurs2_Cons [of _ _ quote])
qed

lemma digits_no_slash: "CHR ''/'' \<notin> set (digits n)"
proof (induction n rule: digits.induct)
  case (1 n)
  show ?case
  proof (cases "n < 10")
    case True
    then show ?thesis
      using hexdigit_plain [of n] by (subst digits.simps) auto
  next
    case False
    have "n mod 10 < 16" by simp
    then show ?thesis
      using False "1.IH" hexdigit_plain [of "n mod 10"] by (subst digits.simps) auto
  qed
qed

lemma clean_int_repr: "clean b (int_repr i)"
  by (rule clean_no_slash) (simp add: int_repr_def digits_no_slash)

lemma clean_newline_indent: "clean b (newline_indent L)"
  by (rule clean_no_slash) (auto simp: newline_indent_def)

lemma clean_sep: "clean b (CHR '','' # newline_indent L)"
  by (rule clean_no_slash) (auto simp: newline_indent_def)

lemma clean_join:
  "clean b sep \<Longrightarrow> \<forall>p \<in> set ps. clean b p \<Longrightarrow> clean b (join sep ps)"
  by (induction sep ps rule: join.induct) (simp_all add: clean_append)

lemma clean_literal:
  "clean b ''null''" "clean b ''true''" "clean b ''false''" "clean b ''[]''" "clean b ''{}''"
  "clean b ''[''" "clean b '']''" "clean b ''{''" "clean b ''}''" "clean b '': ''"
  by (rule clean_no_slash, simp)+

lemma clean_iterencode:
  assumes "b = CHR ''/'' \<or> b = CHR ''*''"
  shows "comment_free v \<Longrightarrow> clean b (iterencode L v)"
proof (induction v arbitrary: L)
  case JNull
  show ?case using clean_literal(1) [of b] by simp
next
  case (JBool x)
  show ?case using clean_literal(2,3) [of b] by simp
next
  case (JNum i)
  show ?case by (simp add: clean_int_repr)
next
  case (JStr s)
  then show ?case by (simp add: clean_encode_basestring [OF assms])
next
  case (JArr xs)
  show ?case
  proof (cases "xs = []")
    case True
    then show ?thesis using clean_literal(4) [of b] by simp
  next
    case False
    have "\<forall>p \<in> set (map (iterencode (Suc L)) xs). clean b p"
      using JArr by auto
    then have "clean b (join (CHR '','' # newline_indent (Suc L)) (map (iterencode (Suc L)) xs))"
      by (intro clean_join clean_sep)
    then have "clean b (''['' @ newline_indent (Suc L)
        @ join (CHR '','' # newline_indent (Suc L)) (map (iterencode (Suc L)) xs)
        @ newline_indent L @ '']'')"
      by (intro clean_append clean_literal clean_newline_indent)
    then show ?thesis using False by simp
  qed
next
  case (JObj kvs)
  show ?case
  proof (cases "kvs = []")
    case True
    then show ?thesis using clean_literal(5) [of b] by simp
  next
    case False
    have "clean b (member (Suc L) kv)" if "kv \<in> set kvs" for kv
    proof -
      have "snd kv \<in> Basic_BNFs.snds kv" by (cases kv) simp
      moreover have "comment_free (snd kv)" "markers_free (fst kv)"
        using JObj.prems that by auto
      ultimately have "clean b (iterencode (Suc L) (snd kv))"
        using JObj.IH [OF that] by blast
      then show ?thesis
        unfolding member_def
        by (intro clean_append clean_literal clean_encode_basestring [OF assms]
            \<open>markers_free (fst kv)\<close>)
    qed
    then have "\<forall>p \<in> set (map (member (Suc L)) kvs). clean b p" by auto
    then have "clean b (join (CHR '','' # newline_indent (Suc L)) (map (member (Suc L)) kvs))"
      by (intro clean_join clean_sep)
    then have "clean b (''{'' @ newline_indent (Suc L)
        @ join (CHR '','' # newline_indent (Suc L)) (map (member (Suc L)) kvs)
        @ newline_indent L @ ''}'')"
      by (intro clean_append clean_literal clean_newline_indent)
    then show ?thesis using False by (simp add: iterencode_JObj del: iterencode.simps(6))
  qed
qed

subsection \<open>Save, then load\<close>

lemma comment_header_lines:
  "comment_header kvs = concat (map (\<lambda>l. ''// '' @ l @ [newline]) (header_lines kvs))"
  by (simp add: comment_header_def header_lines_def split: option.splits json.splits)

lemma header_lines_no_newline: "\<forall>l \<in> set (header_lines kvs). newline \<notin> set l"
  using splitlines_from_no_newline [of "[]"]
  by (auto simp: header_lines_def splitlines_def split: option.splits json.splits)

lemma header_lines_no_block:
  assumes "comment_free (JObj kvs)"
  shows "\<forall>l \<in> set (header_lines kvs). \<not> occurs2 CHR ''/'' CHR ''*'' l"
proof (cases "map_of kvs ''_comment''")
  case None
  then show ?thesis by (simp add: header_lines_def)
next
  case (Some v)
  then have "(''_comment'', v) \<in> set kvs" by (rule map_of_SomeD)
  then have cf: "comment_free v" using assms by auto
  show ?thesis
  proof (cases v)
    case (JStr c)
    then have "\<not> occurs2 CHR ''/'' CHR ''*'' ([] @ c)"
      using cf by (simp add: markers_free_def)
    then have "\<forall>l \<in> set (splitlines c). \<not> occurs2 CHR ''/'' CHR ''*'' l"
      unfolding splitlines_def by (rule splitlines_from_occurs2)
    then show ?thesis using Some JStr by (simp add: header_lines_def)
  qed (simp_all add: header_lines_def Some)
qed

lemma clean_comment_line:
  assumes "\<not> occurs2 CHR ''/'' CHR ''*'' l"
  shows "clean CHR ''*'' (''// '' @ l @ [newline])"
proof -
  have "\<not> occurs2 CHR ''/'' CHR ''*'' (l @ [newline])"
    using assms by (simp add: occurs2_append)
  then have "\<not> occurs2 CHR ''/'' CHR ''*'' (''// '' @ l @ [newline])"
    by (simp add: occurs2_Cons)
  then show ?thesis by (simp add: clean_def)
qed

lemma clean_concat: "\<forall>p \<in> set ps. clean b p \<Longrightarrow> clean b (concat ps)"
  by (induction ps) (simp_all add: clean_append)

lemma clean_header:
  assumes "comment_free (JObj kvs)"
  shows "clean CHR ''*'' (comment_header kvs)"
proof -
  have "clean CHR ''*'' p"
    if mem: "p \<in> set (map (\<lambda>l. ''// '' @ l @ [newline]) (header_lines kvs))" for p
  proof -
    obtain l where l: "l \<in> set (header_lines kvs)" "p = ''// '' @ l @ [newline]"
      using mem by auto
    have "\<not> occurs2 CHR ''/'' CHR ''*'' l"
      using header_lines_no_block [OF assms] l(1) by blast
    then show ?thesis unfolding l(2) by (rule clean_comment_line)
  qed
  then show ?thesis
    unfolding comment_header_lines by (intro clean_concat ballI)
qed

lemma strip_saved_text:
  assumes "comment_free (JObj kvs)"
  shows "strip_json_comments (comment_header kvs @ json_dump (JObj kvs))
           = replicate (length (header_lines kvs)) newline @ json_dump (JObj kvs)"
proof -
  let ?doc = "json_dump (JObj kvs)"
  have star: "clean CHR ''*'' ?doc"
    unfolding json_dump_def by (rule clean_iterencode [OF _ assms]) simp
  have slash: "clean CHR ''/'' ?doc"
    unfolding json_dump_def by (rule clean_iterencode [OF _ assms]) simp
  have "clean CHR ''*'' (comment_header kvs @ ?doc)"
    using clean_header [OF assms] star by (rule clean_append)
  then have block: "strip_block (comment_header kvs @ ?doc) = comment_header kvs @ ?doc"
    by (simp add: clean_def strip_block_id)
  have "strip_line (comment_header kvs @ ?doc)
      = replicate (length (header_lines kvs)) newline @ strip_line ?doc"
    unfolding comment_header_lines
    using header_lines_no_newline by (rule strip_line_header)
  moreover have "strip_line ?doc = ?doc"
    using slash by (simp add: clean_def strip_line_id)
  ultimately show ?thesis by (simp add: strip_json_comments_def block)
qed

lemma find_close_comment:
  "\<not> occurs2 CHR ''*'' CHR ''/'' cm \<Longrightarrow> find_close (cm @ CHR ''*'' # CHR ''/'' # rest) = Some rest"
proof (induction cm)
  case Nil
  then show ?case by simp
next
  case (Cons c cm)
  obtain h t where ht: "cm @ CHR ''*'' # CHR ''/'' # rest = h # t"
    by (cases "cm @ CHR ''*'' # CHR ''/'' # rest") auto
  have "\<not> (c = CHR ''*'' \<and> h = CHR ''/'')"
  proof
    assume a: "c = CHR ''*'' \<and> h = CHR ''/''"
    then have "cm \<noteq> []" using ht by (cases cm) auto
    then have "hd cm = h" using ht by (cases cm) auto
    then have "occurs2 CHR ''*'' CHR ''/'' (c # cm)"
      using a \<open>cm \<noteq> []\<close> occurs2_Cons [of "CHR ''*''" "CHR ''/''" c cm] by blast
    then show False using Cons.prems by simp
  qed
  moreover have "\<not> occurs2 CHR ''*'' CHR ''/'' cm"
    using Cons.prems occurs2_Cons [of "CHR ''*''" "CHR ''/''" c cm] by blast
  ultimately have "find_close (c # h # t) = Some rest"
    using Cons.IH ht by auto
  then show ?case using ht by simp
qed

lemma strip_block_comment:
  assumes "\<not> occurs2 CHR ''*'' CHR ''/'' cm"
  shows "strip_block (''/*'' @ cm @ ''*/'' @ rest) = strip_block rest"
  using find_close_comment [OF assms, of rest] by simp


lemma strip_commented_text:
  assumes "comment_free (JObj kvs)" "\<not> occurs2 CHR ''*'' CHR ''/'' cm"
  shows "strip_json_comments
           (''/*'' @ cm @ ''*/'' @ comment_header kvs @ json_dump (JObj kvs))
         = replicate (length (header_lines kvs)) newline @ json_dump (JObj kvs)"
proof -
  have "strip_block (''/*'' @ cm @ ''*/'' @ comment_header kvs @ json_dump (JObj kvs))
      = strip_block (comment_header kvs @ json_dump (JObj kvs))"
    using assms(2) by (rule strip_block_comment)
  then show ?thesis
    using strip_saved_text [OF assms(1)] by (simp add: strip_json_comments_def)
qed

text \<open>
  C6, as amended. For every session state none of whose strings, keys and values alike,
  contains \<^verbatim>\<open>//\<close> or \<^verbatim>\<open>/*\<close>, saving the workspace state and loading the written file
  into any workspace object succeeds and gives back the same state, so the same
  \<^verbatim>\<open>open_views\<close> list and the same \<^verbatim>\<open>layout\<close> theme; this includes a state with a
  \<^verbatim>\<open>_comment\<close>, for which the written file starts with \<^verbatim>\<open>//\<close> comment lines that the
  reader strips, and a file to which a \<^verbatim>\<open>/* */\<close> block comment has been added in front.
\<close>

theorem session_round_trip:
  assumes "state ws = JObj kvs" "wf_json (state ws)" "comment_free (state ws)"
  shows "save ws file = (True, Some (comment_header kvs @ json_dump (state ws)))
         \<and> load ws0 (snd (save ws file)) = (True, ws0\<lparr>state := state ws\<rparr>)
         \<and> open_views (snd (load ws0 (snd (save ws file)))) = open_views ws
         \<and> layout_theme (snd (load ws0 (snd (save ws file)))) = layout_theme ws
         \<and> (\<not> occurs2 CHR ''*'' CHR ''/'' cm
              \<longrightarrow> load ws0 (Some (''/*'' @ cm @ ''*/'' @ comment_header kvs
                                    @ json_dump (state ws)))
                  = (True, ws0\<lparr>state := state ws\<rparr>))"
proof -
  have sv: "save ws file = (True, Some (comment_header kvs @ json_dump (state ws)))"
    using assms(1) by (simp add: save_def)
  have blk: "load ws0 (Some (''/*'' @ cm @ ''*/'' @ comment_header kvs @ json_dump (state ws)))
      = (True, ws0\<lparr>state := state ws\<rparr>)"
    if cm: "\<not> occurs2 CHR ''*'' CHR ''/'' cm"
  proof -
    have "json_loads (strip_json_comments
        (''/*'' @ cm @ ''*/'' @ comment_header kvs @ json_dump (JObj kvs))) = Some (JObj kvs)"
      using assms cm strip_commented_text [of kvs cm]
      by (simp add: json_loads_dump del: wf_json.simps comment_free.simps)
    then show ?thesis using assms(1) by (simp add: load_def)
  qed
  have "json_loads (strip_json_comments (comment_header kvs @ json_dump (JObj kvs)))
      = Some (JObj kvs)"
    using assms by (simp add: strip_saved_text json_loads_dump del: wf_json.simps comment_free.simps)
  then have ld: "load ws0 (snd (save ws file)) = (True, ws0\<lparr>state := state ws\<rparr>)"
    using assms(1) by (simp add: sv load_def)
  have "open_views (snd (load ws0 (snd (save ws file)))) = open_views ws"
    "layout_theme (snd (load ws0 (snd (save ws file)))) = layout_theme ws"
    using ld by (simp_all add: open_views_def layout_theme_def)
  then show ?thesis using sv ld blk by blast
qed

lemma example_session_state:
  "state example_session =
     JObj [(''open_views'',
            JArr [text_view ''T1.py'' ''x = 1 / 2'',
                  JObj [(''type'', JStr ''view''), (''title'', JStr ''Map''),
                        (''view_type'', JStr ''Map''), (''content'', JNull)]]),
           (''layout'', JObj [(''theme'', JStr ''dark'')]),
           (''last_opened'', JNull),
           (''_comment'', JStr (''my session'' @ [newline] @ ''second line''))]"
  by (simp add: example_session_def commented_def session_def)

text \<open>
  A session with a two-line comment: the file starts with the comment line, and loading
  it into a fresh workspace object gives the saved state back.
\<close>

theorem session_round_trip_witness:
  "wf_json (state example_session) \<and> comment_free (state example_session)
   \<and> fst (save example_session None)
   \<and> take 14 (the (snd (save example_session None))) = ''// my session'' @ [newline]
   \<and> load WorkspaceState_init (snd (save example_session None))
       = (True, WorkspaceState_init\<lparr>state := state example_session\<rparr>)
   \<and> layout_theme (snd (load WorkspaceState_init (snd (save example_session None))))
       = Some (JStr ''dark'')
   \<and> load WorkspaceState_init
         (Some (''/* edited by hand */'' @ the (snd (save example_session None))))
       = (True, WorkspaceState_init\<lparr>state := state example_session\<rparr>)"
proof -
  have wf: "wf_json (state example_session)"
    by (simp add: example_session_state text_view_def)
  have cf: "comment_free (state example_session)"
    by (simp add: example_session_state text_view_def markers_free_def)
  note rt = session_round_trip [OF example_session_state wf cf, of None WorkspaceState_init
      "'' edited by hand ''"]
  have hd: "take 14 (comment_header
      [(''open_views'',
            JArr [text_view ''T1.py'' ''x = 1 / 2'',
                  JObj [(''type'', JStr ''view''), (''title'', JStr ''Map''),
                        (''view_type'', JStr ''Map''), (''content'', JNull)]]),
           (''layout'', JObj [(''theme'', JStr ''dark'')]),
           (''last_opened'', JNull),
           (''_comment'', JStr (''my session'' @ [newline] @ ''second line''))]
        @ rest) = ''// my session'' @ [newline]" for rest
    by (simp add: comment_header_def is_space_def splitlines_def is_linebreak_def)
  have th: "layout_theme example_session = Some (JStr ''dark'')"
    by (simp add: layout_theme_def state_get_def example_session_state)
  have sv: "save example_session None = (True, Some (comment_header
      [(''open_views'',
            JArr [text_view ''T1.py'' ''x = 1 / 2'',
                  JObj [(''type'', JStr ''view''), (''title'', JStr ''Map''),
                        (''view_type'', JStr ''Map''), (''content'', JNull)]]),
           (''layout'', JObj [(''theme'', JStr ''dark'')]),
           (''last_opened'', JNull),
           (''_comment'', JStr (''my session'' @ [newline] @ ''second line''))]
        @ json_dump (state example_session)))"
    using rt by blast
  have ok: "fst (save example_session None)" unfolding sv by simp
  have tk: "take 14 (the (snd (save example_session None))) = ''// my session'' @ [newline]"
    unfolding sv snd_conv option.sel by (rule hd)
  have ld: "load WorkspaceState_init (snd (save example_session None))
       = (True, WorkspaceState_init\<lparr>state := state example_session\<rparr>)"
    using rt by blast
  have "layout_theme (snd (load WorkspaceState_init (snd (save example_session None))))
       = layout_theme example_session"
    using rt by blast
  then have lt: "layout_theme (snd (load WorkspaceState_init (snd (save example_session None))))
       = Some (JStr ''dark'')"
    using th by simp
  have "\<not> occurs2 CHR ''*'' CHR ''/'' '' edited by hand ''" by simp
  then have "load WorkspaceState_init
         (Some (''/*'' @ '' edited by hand '' @ ''*/'' @ the (snd (save example_session None))))
       = (True, WorkspaceState_init\<lparr>state := state example_session\<rparr>)"
    using rt unfolding sv snd_conv option.sel by blast
  then have bl: "load WorkspaceState_init
         (Some (''/* edited by hand */'' @ the (snd (save example_session None))))
       = (True, WorkspaceState_init\<lparr>state := state example_session\<rparr>)"
    by simp
  show ?thesis using wf cf ok tk ld lt bl by blast
qed

text \<open>
  C6 as first stated fails when a tab holds a comment marker. A block comment inside
  the content is stripped on read, and the session loads with another content; a URL
  loses everything after \<^verbatim>\<open>//\<close>, the text no longer parses, and the session is not
  restored.
\<close>

theorem comment_marker_counterexample:
  "open_views block_session = Some (JArr [text_view ''notes.txt'' ''a/*b*/c''])
   \<and> load WorkspaceState_init (snd (save block_session None))
       = (True, WorkspaceState_init\<lparr>state := state (session [text_view ''notes.txt'' ''ac''] ''dark'')\<rparr>)
   \<and> open_views (snd (load WorkspaceState_init (snd (save block_session None))))
       = Some (JArr [text_view ''notes.txt'' ''ac''])
   \<and> open_views url_session = Some (JArr [text_view ''notes.txt'' ''see http://x''])
   \<and> load WorkspaceState_init (snd (save url_session None)) = (False, WorkspaceState_init)
   \<and> open_views (snd (load WorkspaceState_init (snd (save url_session None)))) = Some (JArr [])"
  by code_simp

end
